theory Spec2Isabelle
  imports Main "HOL-Library.Word" "HOL-Library.Signed_Division"
begin

unbundle bit_operations_syntax

section \<open>Data model of SfPlayer (android_SfPlayer.cpp)\<close>

text \<open>
  The player is one object whose members are mutated by the message handlers of its
  looper thread and by a few public methods. The model is a record with one field per
  member, named as in the source. The collaborators the source only calls into (the
  audio track, the data source, the decoder, the looper's queue, the client callback)
  are kept as the trace of the calls made on them, so that "no sink call" or "one
  decode message posted" are statements about the state. A null pointer is \<open>None\<close>.
\<close>

type_synonym int64 = "64 word"
type_synonym int32 = "32 word"
type_synonym int16 = "16 word"
type_synonym uint32 = "32 word"
type_synonym byte = "8 word"

text \<open>What can stop a method short of returning: a failed CHECK, a call through a null
  pointer, an integer division by zero, and TRESPASS.\<close>

datatype fault = CheckFailed | NullDeref | DivByZero | Trespass

text \<open>Modelled from the spec: the enum CacheStatus is declared in android_SfPlayer.h,
  which is not among the sources; the spec lists it as Empty, Low, Intermediate, Enough,
  High, and \<open>onCheckCache\<close> compares it with \<open>>=\<close>, so the order is the
  order of declaration.\<close>

datatype CacheStatus =
  kStatusEmpty | kStatusLow | kStatusIntermediate | kStatusEnough | kStatusHigh

fun status_rank :: "CacheStatus \<Rightarrow> nat" where
  "status_rank kStatusEmpty = 0"
| "status_rank kStatusLow = 1"
| "status_rank kStatusIntermediate = 2"
| "status_rank kStatusEnough = 3"
| "status_rank kStatusHigh = 4"

text \<open>The three notifications a \<open>kWhatNotif\<close> message can carry, each with its
  int32 payload (\<open>msg->setInt32(EVENT_..., v)\<close>).\<close>

datatype notif =
  EVENT_PREFETCHSTATUSCHANGE CacheStatus
| EVENT_PREFETCHFILLLEVELUPDATE int32
| EVENT_ENDOFSTREAM int32

text \<open>The messages of the looper. A \<open>kWhatSeek\<close> message carries the int64 entry
  "seek" that \<open>seek\<close> stores in it; no other place creates one, so the CHECK of
  \<open>onSeek\<close> on that entry cannot fail and the entry is part of the constructor.\<close>

datatype AMessage =
  kWhatPrepare | kWhatDecode | kWhatRender | kWhatCheckCache | kWhatNotif notif
| kWhatPlay | kWhatPause | kWhatSeek int64

text \<open>Calls made on the AudioTrack, in order.\<close>

datatype sink_call = SinkStart | SinkStop | SinkPause | SinkWrite "byte list"

text \<open>Calls made on the client's callback: event kind and payload.\<close>

datatype client_call =
  kEventPrefetchStatusChange int32
| kEventPrefetchFillLevelUpdate int32
| kEventEndOfStream int32

record MediaBuffer =
  buf_data :: "byte list"
  range_offset :: nat
  range_length :: nat
  kKeyTime :: "int64 option"

text \<open>The data source as far as the player looks at it: the kWantsPrefetching bit of
  \<open>flags()\<close>.\<close>

record DataSource =
  kWantsPrefetching :: bool

text \<open>The union DataLocator with the member that was written last, and its tag.\<close>

datatype DataLocator = uri "string option" | fdi int32 int64 int64

datatype DataLocatorType = kDataLocatorNone | kDataLocatorUri | kDataLocatorFd

record SfPlayer =
  mAudioTrack :: "sink_call list option"
  mFlags :: uint32
  mBitrate :: int64
  mNumChannels :: int32
  mSampleRateHz :: int32
  mTimeDelta :: int64
  mDurationUsec :: int64
  mCacheStatus :: CacheStatus
  mSeekTimeMsec :: int64
  mLastDecodedPositionUs :: int64
  mCacheFill :: int16
  mLastNotifiedCacheFill :: int16
  mCacheFillNotifThreshold :: int16
  mDataLocatorType :: DataLocatorType
  mDataLocator :: DataLocator
  mNotifyClient :: "client_call list option"
  mDecodeBuffer :: "MediaBuffer option"
  mDataSource :: "DataSource option"
  mAudioSource :: "int64 option list option"
  mRenderLooper :: "(AMessage \<times> int64) list"
  released :: "MediaBuffer list"
  freed :: "string list"

text \<open>
  The members are declared in android_SfPlayer.h, which is not among the sources. Their
  widths are taken from the uses in android_SfPlayer.cpp: \<open>onSeek\<close> stores an
  int64_t in \<open>mSeekTimeMsec\<close>, \<open>findInt64\<close> writes
  \<open>mLastDecodedPositionUs\<close> and the duration, the bitrate is the quotient of two
  64-bit values, \<open>findInt32\<close> writes the channel count and the sample rate,
  \<open>mCacheFill\<close> is assigned an \<open>(int16_t)\<close> cast, and \<open>mFlags\<close> is a word
  of flag bits.

  \<open>mAudioSource\<close> is the decoder: \<open>None\<close> before prepare, else the seek option of
  every \<open>read\<close> made on it. \<open>mRenderLooper\<close> is the queue of posted messages with
  their delay in microseconds (0 for a plain \<open>post()\<close>). \<open>released\<close> collects the
  buffers given back with \<open>release()\<close>, \<open>freed\<close> the strings given to \<open>free\<close>.
\<close>

text \<open>Modelled from the spec: the flag constants are declared in android_SfPlayer.h,
  which is not among the sources; the spec has \<open>flags\<close> as a bit-set over Playing,
  Buffering, Preparing, Seeking, so they are four distinct bits.\<close>

definition kFlagPlaying :: uint32 where "kFlagPlaying = 1"
definition kFlagPreparing :: uint32 where "kFlagPreparing = 2"
definition kFlagBuffering :: uint32 where "kFlagBuffering = 4"
definition kFlagSeeking :: uint32 where "kFlagSeeking = 8"

text \<open>\<open>mFlags & f\<close> read as a condition.\<close>

definition flag_set :: "uint32 \<Rightarrow> SfPlayer \<Rightarrow> bool" where
  "flag_set f s = (mFlags s AND f \<noteq> 0)"

text \<open>The constructor's member initialisers. The union is not initialised by the
  source; its tag says that nothing is held.\<close>

definition SfPlayer_new :: SfPlayer where
  "SfPlayer_new =
     \<lparr> mAudioTrack = None, mFlags = 0, mBitrate = - 1, mNumChannels = 1,
       mSampleRateHz = 0, mTimeDelta = - 1, mDurationUsec = - 1,
       mCacheStatus = kStatusEmpty, mSeekTimeMsec = 0, mLastDecodedPositionUs = - 1,
       mCacheFill = 0, mLastNotifiedCacheFill = 0, mCacheFillNotifThreshold = 100,
       mDataLocatorType = kDataLocatorNone, mDataLocator = uri None,
       mNotifyClient = None, mDecodeBuffer = None, mDataSource = None,
       mAudioSource = None, mRenderLooper = [], released = [], freed = [] \<rparr>"

definition post :: "AMessage \<Rightarrow> int64 \<Rightarrow> SfPlayer \<Rightarrow> SfPlayer" where
  "post m delay s = s\<lparr> mRenderLooper := mRenderLooper s @ [(m, delay)] \<rparr>"

definition useAudioTrack :: "sink_call list option \<Rightarrow> SfPlayer \<Rightarrow> SfPlayer" where
  "useAudioTrack pTrack s = s\<lparr> mAudioTrack := pTrack \<rparr>"

definition setNotifListener :: "client_call list option \<Rightarrow> SfPlayer \<Rightarrow> SfPlayer" where
  "setNotifListener cbf s = s\<lparr> mNotifyClient := cbf \<rparr>"

subsection \<open>Notifications\<close>

definition notifyStatus :: "SfPlayer \<Rightarrow> SfPlayer" where
  "notifyStatus s = post (kWhatNotif (EVENT_PREFETCHSTATUSCHANGE (mCacheStatus s))) 0 s"

definition notifyCacheFill :: "SfPlayer \<Rightarrow> SfPlayer" where
  "notifyCacheFill s =
     (let s1 = s\<lparr> mLastNotifiedCacheFill := mCacheFill s \<rparr>
      in post (kWhatNotif (EVENT_PREFETCHFILLLEVELUPDATE (scast (mLastNotifiedCacheFill s1)))) 0 s1)"

definition status_code :: "CacheStatus \<Rightarrow> int32" where
  "status_code c = of_nat (status_rank c)"

definition onNotify :: "notif \<Rightarrow> SfPlayer \<Rightarrow> SfPlayer" where
  "onNotify n s =
     (case mNotifyClient s of
        None \<Rightarrow> s
      | Some calls \<Rightarrow>
          s\<lparr> mNotifyClient := Some (calls @
            [case n of
               EVENT_PREFETCHSTATUSCHANGE c \<Rightarrow> kEventPrefetchStatusChange (status_code c)
             | EVENT_PREFETCHFILLLEVELUPDATE v \<Rightarrow> kEventPrefetchFillLevelUpdate v
             | EVENT_ENDOFSTREAM v \<Rightarrow> kEventEndOfStream v]) \<rparr>)"

subsection \<open>The data locator\<close>

definition resetDataLocator :: "SfPlayer \<Rightarrow> SfPlayer" where
  "resetDataLocator s =
     (let s1 =
        (if mDataLocatorType s = kDataLocatorUri then
           (case mDataLocator s of
              uri (Some str) \<Rightarrow> s\<lparr> freed := freed s @ [str], mDataLocator := uri None \<rparr>
            | _ \<Rightarrow> s)
         else s)
      in s1\<lparr> mDataLocatorType := kDataLocatorNone \<rparr>)"

text \<open>\<open>setDataSource(const char *uri)\<close>. Whether \<open>malloc\<close> returns a block is
  not decided by the player: it is the argument \<open>malloc_ok\<close>.\<close>

definition setDataSource :: "bool \<Rightarrow> string \<Rightarrow> SfPlayer \<Rightarrow> SfPlayer" where
  "setDataSource malloc_ok u s =
     (let s1 = resetDataLocator s
      in if \<not> malloc_ok then s1
         else s1\<lparr> mDataLocator := uri (Some u), mDataLocatorType := kDataLocatorUri \<rparr>)"

subsection \<open>Transport controls\<close>

definition seek :: "int64 \<Rightarrow> SfPlayer \<Rightarrow> SfPlayer" where
  "seek timeMsec s = post (kWhatSeek timeMsec) 0 s"

definition play :: "SfPlayer \<Rightarrow> SfPlayer" where
  "play s =
     (case mAudioTrack s of
        None \<Rightarrow> s
      | Some calls \<Rightarrow>
          post kWhatDecode 0 (post kWhatPlay 0 (s\<lparr> mAudioTrack := Some (calls @ [SinkStart]) \<rparr>)))"

definition stop :: "SfPlayer \<Rightarrow> SfPlayer" where
  "stop s =
     (case mAudioTrack s of
        None \<Rightarrow> s
      | Some calls \<Rightarrow>
          seek 0 (post kWhatPause 0 (s\<lparr> mAudioTrack := Some (calls @ [SinkStop]) \<rparr>)))"

definition pause :: "SfPlayer \<Rightarrow> SfPlayer" where
  "pause s =
     (case mAudioTrack s of
        None \<Rightarrow> s
      | Some calls \<Rightarrow>
          (post kWhatPause 0 s)\<lparr> mAudioTrack := Some (calls @ [SinkPause]) \<rparr>)"

text \<open>C's division of int64 values: the quotient is truncated towards zero
  (\<open>sdiv\<close> on \<open>int\<close>), where HOL's \<open>div\<close> would floor.\<close>

definition div64 :: "int64 \<Rightarrow> int64 \<Rightarrow> int64" where
  "div64 a b = word_of_int (sint a sdiv sint b)"

text \<open>\<open>getPositionMsec\<close> returns uint32_t: the casts cut the int64 members down to
  their low 32 bits.\<close>

definition getPositionMsec :: "SfPlayer \<Rightarrow> uint32" where
  "getPositionMsec s =
     (if flag_set kFlagSeeking s then ucast (mSeekTimeMsec s)
      else if mLastDecodedPositionUs s <s 0 then 0
      else ucast (div64 (mLastDecodedPositionUs s) 1000))"

definition getPositionUsec :: "SfPlayer \<Rightarrow> int64" where
  "getPositionUsec s =
     (if flag_set kFlagSeeking s then mSeekTimeMsec s * 1000
      else if mLastDecodedPositionUs s <s 0 then 0
      else mLastDecodedPositionUs s)"

subsection \<open>Message handlers\<close>

definition onPlay :: "SfPlayer \<Rightarrow> SfPlayer" where
  "onPlay s = s\<lparr> mFlags := mFlags s OR kFlagPlaying \<rparr>"

definition onPause :: "SfPlayer \<Rightarrow> SfPlayer" where
  "onPause s = s\<lparr> mFlags := mFlags s AND NOT kFlagPlaying \<rparr>"

definition onSeek :: "int64 \<Rightarrow> SfPlayer \<Rightarrow> SfPlayer" where
  "onSeek timeMsec s =
     s\<lparr> mFlags := mFlags s OR kFlagSeeking, mSeekTimeMsec := timeMsec,
        mTimeDelta := - 1, mLastDecodedPositionUs := - 1 \<rparr>"

subsection \<open>The cache estimator\<close>

text \<open>The thresholds are macros of android_SfPlayer.h, which is not among the sources
  (the spec calls their values tunable configuration): they are parameters here. The
  duration thresholds are compared with an int64, the size thresholds with a size_t.\<close>

record thresholds =
  DURATION_CACHED_HIGH_US :: int64
  DURATION_CACHED_MED_US :: int64
  DURATION_CACHED_LOW_US :: int64
  SIZE_CACHED_HIGH_BYTES :: uint32
  SIZE_CACHED_MED_BYTES :: uint32
  SIZE_CACHED_LOW_BYTES :: uint32

subsubsection \<open>Double arithmetic\<close>

text \<open>
  The fill level is computed in \<open>double\<close>. A finite double is kept as a pair
  \<open>(n, d)\<close> of integers, \<open>d\<close> a power of two, that stands for \<open>n / d\<close>. Every
  operation gives the double nearest to the exact result, ties going to the even
  mantissa (IEEE 754 binary64, round to nearest even, a mantissa of 53 bits). The values
  that occur here are far from the ends of the exponent range, so neither overflow nor
  subnormal numbers are modelled.
\<close>

type_synonym double = "int \<times> int"

text \<open>The number of binary digits of a natural number.\<close>

fun bit_length :: "nat \<Rightarrow> nat" where
  "bit_length n = (if n = 0 then 0 else Suc (bit_length (n div 2)))"

declare bit_length.simps [simp del]

text \<open>
  The double nearest to \<open>a / b\<close>, for \<open>0 \<le> a\<close> and \<open>0 < b\<close>. The exponent
  \<open>e\<close> is the one for which \<open>a / (b * 2^e)\<close> lies between \<open>2^52\<close> and
  \<open>2^53\<close>: \<open>e0\<close> is right or one too small. \<open>q\<close> is the mantissa truncated,
  \<open>m\<close> the mantissa rounded.
\<close>

definition round_to_double :: "int \<Rightarrow> int \<Rightarrow> double" where
  "round_to_double a b =
     (if a = 0 then (0, 1)
      else
        (let e0 = int (bit_length (nat a)) - int (bit_length (nat b)) - 53;
             e = (if 2 ^ 53 \<le> (a * 2 ^ nat (- e0)) div (b * 2 ^ nat e0) then e0 + 1 else e0);
             num = a * 2 ^ nat (- e);
             den = b * 2 ^ nat e;
             q = num div den;
             r = num mod den;
             m = (if den < 2 * r \<or> (den = 2 * r \<and> odd q) then q + 1 else q)
         in (m * 2 ^ nat e, 2 ^ nat (- e))))"

text \<open>The same for any sign of \<open>a\<close>: rounding is symmetric.\<close>

definition round_signed :: "int \<Rightarrow> int \<Rightarrow> double" where
  "round_signed a b =
     (if a < 0 then (case round_to_double (- a) b of (n, d) \<Rightarrow> (- n, d))
      else round_to_double a b)"

text \<open>The conversion \<open>(double) k\<close> of an int64 value, the product and the quotient of
  two doubles. The quotient is for a divisor that is not zero: the one division of the
  source divides by a duration it has tested to be positive.\<close>

definition double_of_int :: "int \<Rightarrow> double" where
  "double_of_int k = round_signed k 1"

definition double_mult :: "double \<Rightarrow> double \<Rightarrow> double" where
  "double_mult x y = round_signed (fst x * fst y) (snd x * snd y)"

definition double_divide :: "double \<Rightarrow> double \<Rightarrow> double" where
  "double_divide x y =
     (if 0 < fst y then round_signed (fst x * snd y) (snd x * fst y)
      else round_signed (- (fst x * snd y)) (snd x * (- fst y)))"

text \<open>
  The conversion \<open>(int16_t) x\<close> of a double. The value is truncated towards zero. C++
  defines the result only when the truncated value is an int16_t; the compiled code
  converts to a 32-bit integer and stores its low 16 bits, so a value within the int32
  range wraps around. Past the int32 range the answer is the target's: the model takes
  that of the x86 conversion, INT32_MIN, whose low 16 bits are 0.
\<close>

definition int16_of_double :: "double \<Rightarrow> int16" where
  "int16_of_double x =
     (let t = fst x sdiv snd x
      in if - 2147483648 \<le> t \<and> t \<le> 2147483647 then word_of_int t else 0)"

text \<open>
  The fill level of the known-duration branch,
  \<open>(int16_t) (1000.0 * (double)(currentPositionUsec + dataRemainingUs) / mDurationUsec)\<close>.
  The sum is an int64 (the uint32 position is widened); it is converted to double,
  multiplied by 1000.0, and divided by the duration converted to double, each step
  rounded.
\<close>

definition fill_level :: "uint32 \<Rightarrow> int64 \<Rightarrow> int64 \<Rightarrow> int16" where
  "fill_level currentPositionUsec dataRemainingUs durationUsec =
     int16_of_double
       (double_divide
          (double_mult (1000, 1)
             (double_of_int (sint (ucast currentPositionUsec + dataRemainingUs))))
          (double_of_int (sint durationUsec)))"

definition status_by_duration :: "thresholds \<Rightarrow> int64 \<Rightarrow> CacheStatus" where
  "status_by_duration th dataRemainingUs =
     (if DURATION_CACHED_HIGH_US th <s dataRemainingUs then kStatusHigh
      else if DURATION_CACHED_MED_US th <s dataRemainingUs then kStatusEnough
      else if dataRemainingUs <s DURATION_CACHED_LOW_US th then kStatusLow
      else kStatusIntermediate)"

definition status_by_size :: "thresholds \<Rightarrow> uint32 \<Rightarrow> CacheStatus" where
  "status_by_size th dataRemaining =
     (if SIZE_CACHED_HIGH_BYTES th < dataRemaining then kStatusHigh
      else if SIZE_CACHED_MED_BYTES th < dataRemaining then kStatusEnough
      else if dataRemaining < SIZE_CACHED_LOW_BYTES th then kStatusLow
      else kStatusIntermediate)"

text \<open>The two notification checks that end \<open>getCacheRemaining\<close>. The int16_t
  members are promoted to int before the subtraction, so nothing wraps.\<close>

definition notify_changes :: "CacheStatus \<Rightarrow> SfPlayer \<Rightarrow> SfPlayer" where
  "notify_changes oldStatus s =
     (let s1 = (if oldStatus \<noteq> mCacheStatus s then notifyStatus s else s)
      in if sint (mCacheFillNotifThreshold s1)
              < \<bar>sint (mCacheFill s1) - sint (mLastNotifiedCacheFill s1)\<bar>
         then notifyCacheFill s1 else s1)"

text \<open>\<open>getCacheRemaining(bool *eos)\<close>. What \<open>approxDataRemaining\<close> answers (the
  bytes left in the cache and the end-of-stream flag) is the argument \<open>approx\<close>. The
  result is the returned status and the player afterwards.\<close>

definition getCacheRemaining ::
  "thresholds \<Rightarrow> uint32 \<times> bool \<Rightarrow> SfPlayer \<Rightarrow> fault + (CacheStatus \<times> SfPlayer)" where
  "getCacheRemaining th approx s =
     (case mDataSource s of
        None \<Rightarrow> Inl NullDeref
      | Some cachedSource \<Rightarrow>
          (let oldStatus = mCacheStatus s;
               dataRemaining = fst approx;
               eos = snd approx
           in if mBitrate s <s 0 then Inl CheckFailed
              else if mBitrate s = 0 then Inl DivByZero
              else
                (let dataRemainingUs = div64 (ucast dataRemaining * 8000000) (mBitrate s);
                     s1 =
                       (if eos then s\<lparr> mCacheStatus := kStatusHigh, mCacheFill := 1000 \<rparr>
                        else if 0 <s mDurationUsec s then
                          s\<lparr> mCacheFill := fill_level (ucast (getPositionUsec s)) dataRemainingUs
                                              (mDurationUsec s),
                             mCacheStatus := status_by_duration th dataRemainingUs \<rparr>
                        else s\<lparr> mCacheStatus := status_by_size th dataRemaining \<rparr>);
                     s2 = notify_changes oldStatus s1
                 in Inr (mCacheStatus s2, s2))))"

subsection \<open>Prefetch, decode, render, cache check\<close>

definition startPrefetch_async :: "SfPlayer \<Rightarrow> fault + SfPlayer" where
  "startPrefetch_async s =
     (case mDataSource s of
        None \<Rightarrow> Inl NullDeref
      | Some ds \<Rightarrow>
          if kWantsPrefetching ds then
            Inr (post kWhatCheckCache 100000
                   (s\<lparr> mFlags := (mFlags s OR kFlagPreparing) OR kFlagBuffering \<rparr>))
          else Inr s)"

text \<open>What the decoder answers to one \<open>read\<close>.\<close>

datatype read_result = ReadOK MediaBuffer | ReadEndOfStream | ReadError int32

text \<open>What the outside answers during one handler: the cache's
  \<open>approxDataRemaining\<close>, the decoder's \<open>read\<close>, and the clock at the two calls of
  \<open>ALooper::GetNowUs\<close> in \<open>onDecode\<close>.\<close>

record world =
  approxDataRemaining :: "uint32 \<times> bool"
  read_answer :: read_result
  now_anchor :: int64
  now_post :: int64

text \<open>The first branch of \<open>onDecode\<close>: buffer more.\<close>

definition buffer_more :: "SfPlayer \<Rightarrow> fault + SfPlayer" where
  "buffer_more s =
     (let paused =
        (if flag_set kFlagPlaying s then
           (case mAudioTrack s of
              None \<Rightarrow> Inl NullDeref
            | Some calls \<Rightarrow> Inr (s\<lparr> mAudioTrack := Some (calls @ [SinkPause]) \<rparr>))
         else Inr s)
      in case paused of
           Inl e \<Rightarrow> Inl e
         | Inr s1 \<Rightarrow>
             Inr (post kWhatCheckCache 100000 (s1\<lparr> mFlags := mFlags s1 OR kFlagBuffering \<rparr>)))"

text \<open>The end of \<open>onDecode\<close>, after a read that returned OK and a buffer with a
  timestamp: clear Seeking, anchor the clock if needed, post the render message.\<close>

definition schedule_render :: "world \<Rightarrow> SfPlayer \<Rightarrow> SfPlayer" where
  "schedule_render w s =
     (let s1 = (if flag_set kFlagSeeking s
                then s\<lparr> mFlags := mFlags s AND NOT kFlagSeeking \<rparr> else s);
          s2 = (if mTimeDelta s1 <s 0
                then s1\<lparr> mTimeDelta := now_anchor w - mLastDecodedPositionUs s1 \<rparr> else s1);
          delayUs = mLastDecodedPositionUs s2 + mTimeDelta s2 - now_post w
      in post kWhatRender delayUs s2)"

text \<open>\<open>onDecode\<close> from the test of the three flags on.\<close>

definition decode_frame :: "world \<Rightarrow> SfPlayer \<Rightarrow> fault + SfPlayer" where
  "decode_frame w s =
     (if mFlags s AND (kFlagPlaying OR kFlagBuffering OR kFlagPreparing) = 0 then Inr s
      else
        (let readOptions =
               (if flag_set kFlagSeeking s then Some (mSeekTimeMsec s * 1000) else None);
             s1 = (case mDecodeBuffer s of
                     None \<Rightarrow> s
                   | Some b \<Rightarrow> s\<lparr> released := released s @ [b], mDecodeBuffer := None \<rparr>)
         in case mAudioSource s1 of
              None \<Rightarrow> Inl NullDeref
            | Some reads \<Rightarrow>
                (let s2 = s1\<lparr> mAudioSource := Some (reads @ [readOptions]) \<rparr>
                 in case read_answer w of
                      ReadOK b \<Rightarrow>
                        (case kKeyTime b of
                           None \<Rightarrow> Inl CheckFailed
                         | Some t \<Rightarrow>
                             Inr (schedule_render w
                                    (s2\<lparr> mDecodeBuffer := Some b,
                                         mLastDecodedPositionUs := t \<rparr>)))
                    | ReadEndOfStream \<Rightarrow>
                        Inr (if flag_set kFlagPlaying s2
                             then post (kWhatNotif (EVENT_ENDOFSTREAM 1)) 0 s2 else s2)
                    | ReadError err \<Rightarrow> Inr s2)))"

definition onDecode :: "thresholds \<Rightarrow> world \<Rightarrow> SfPlayer \<Rightarrow> fault + SfPlayer" where
  "onDecode th w s =
     (case mDataSource s of
        None \<Rightarrow> Inl NullDeref
      | Some ds \<Rightarrow>
          if kWantsPrefetching ds then
            (case getCacheRemaining th (approxDataRemaining w) s of
               Inl e \<Rightarrow> Inl e
             | Inr (status, s1) \<Rightarrow>
                 if status = kStatusLow \<and> \<not> snd (approxDataRemaining w)
                 then buffer_more s1 else decode_frame w s1)
          else decode_frame w s)"

definition onRender :: "SfPlayer \<Rightarrow> fault + SfPlayer" where
  "onRender s =
     (case mDecodeBuffer s of
        None \<Rightarrow> Inr s
      | Some b \<Rightarrow>
          (let written =
             (if flag_set kFlagPlaying s then
                (case mAudioTrack s of
                   None \<Rightarrow> Inl NullDeref
                 | Some calls \<Rightarrow>
                     Inr (post kWhatDecode 0
                            (s\<lparr> mAudioTrack := Some (calls @
                                 [SinkWrite (take (range_length b)
                                               (drop (range_offset b) (buf_data b)))]) \<rparr>)))
              else Inr s)
           in case written of
                Inl e \<Rightarrow> Inl e
              | Inr s1 \<Rightarrow> Inr (s1\<lparr> released := released s1 @ [b], mDecodeBuffer := None \<rparr>)))"

definition onCheckCache :: "thresholds \<Rightarrow> world \<Rightarrow> SfPlayer \<Rightarrow> fault + SfPlayer" where
  "onCheckCache th w s =
     (case getCacheRemaining th (approxDataRemaining w) s of
        Inl e \<Rightarrow> Inl e
      | Inr (status, s1) \<Rightarrow>
          if snd (approxDataRemaining w) \<or> status = kStatusHigh
             \<or> (flag_set kFlagPreparing s1 \<and> status_rank kStatusEnough \<le> status_rank status)
          then
            (let started =
               (if flag_set kFlagPlaying s1 then
                  (case mAudioTrack s1 of
                     None \<Rightarrow> Inl NullDeref
                   | Some calls \<Rightarrow> Inr (s1\<lparr> mAudioTrack := Some (calls @ [SinkStart]) \<rparr>))
                else Inr s1)
             in case started of
                  Inl e \<Rightarrow> Inl e
                | Inr s2 \<Rightarrow>
                    (let s3 = s2\<lparr> mFlags := mFlags s2 AND NOT kFlagBuffering \<rparr>;
                         s4 = (if flag_set kFlagPreparing s3
                               then s3\<lparr> mFlags := mFlags s3 AND NOT kFlagPreparing \<rparr> else s3);
                         s5 = s4\<lparr> mTimeDelta := - 1 \<rparr>
                     in Inr (if flag_set kFlagPlaying s5 then post kWhatDecode 0 s5 else s5)))
          else Inr (post kWhatCheckCache 100000 s1))"

subsection \<open>Prepare\<close>

text \<open>C's \<open>tolower\<close> on ASCII, and \<open>strncasecmp(a, b, n) == 0\<close> for strings
  without an inner NUL: the first \<open>n\<close> characters (or all, when the string is
  shorter) agree up to case. \<open>strcasecmp\<close> compares the whole strings.\<close>

definition tolower :: "char \<Rightarrow> char" where
  "tolower c =
     (if (65::nat) \<le> of_char c \<and> of_char c \<le> (90::nat)
      then char_of (of_char c + (32::nat)) else c)"

definition strncasecmp_eq :: "string \<Rightarrow> string \<Rightarrow> nat \<Rightarrow> bool" where
  "strncasecmp_eq a b n = (map tolower (take n a) = map tolower (take n b))"

definition strcasecmp_eq :: "string \<Rightarrow> string \<Rightarrow> bool" where
  "strcasecmp_eq a b = (map tolower a = map tolower b)"

text \<open>What the stagefright objects answer during \<open>onPrepare\<close>: whether the HTTP
  connection is made and the cached source built over it, what
  \<open>DataSource::CreateFromURI\<close> returns, the file source and its \<open>initCheck\<close>
  (0 is OK), the MIME type of each track of the extractor (\<open>None\<close> for no extractor,
  and for a track without the key), the source's size and the track's duration when
  known, whether the OMX client connects, the codec is created and the source starts,
  and the channel count and sample rate of the format.\<close>

record prepare_world =
  http_connect_ok :: bool
  cached_source :: DataSource
  created_from_uri :: "DataSource option"
  file_source :: DataSource
  file_initCheck :: int32
  extractor_tracks :: "string option list option"
  source_size :: "int64 option"
  key_duration :: "int64 option"
  omx_connect_ok :: bool
  codec_created :: bool
  source_start_ok :: bool
  channel_count :: "int32 option"
  sample_rate :: "int32 option"

datatype prepare_status =
  SFPLAYER_SUCCESS | MEDIA_ERROR_BASE | ERROR_UNSUPPORTED | INIT_CHECK_ERROR int32

text \<open>The switch on the locator type: a fault, or an early return with its status, or
  the data source (which may be null).\<close>

definition open_data_source ::
  "prepare_world \<Rightarrow> SfPlayer \<Rightarrow> fault + (prepare_status + DataSource option)" where
  "open_data_source pw s =
     (case mDataLocatorType s of
        kDataLocatorNone \<Rightarrow> Inr (Inl MEDIA_ERROR_BASE)
      | kDataLocatorUri \<Rightarrow>
          (case mDataLocator s of
             uri (Some u) \<Rightarrow>
               if strncasecmp_eq u ''http://'' 7
               then Inr (Inr (if http_connect_ok pw then Some (cached_source pw) else None))
               else Inr (Inr (created_from_uri pw))
           | _ \<Rightarrow> Inl NullDeref)
      | kDataLocatorFd \<Rightarrow>
          if file_initCheck pw \<noteq> 0 then Inr (Inl (INIT_CHECK_ERROR (file_initCheck pw)))
          else Inr (Inr (Some (file_source pw))))"

text \<open>The loop over the tracks: the first track whose MIME type starts with "audio/",
  with whether it is raw audio; a track without a MIME type fails the CHECK.\<close>

fun find_audio_track :: "string option list \<Rightarrow> fault + bool option" where
  "find_audio_track [] = Inr None"
| "find_audio_track (None # tracks) = Inl CheckFailed"
| "find_audio_track (Some mime # tracks) =
     (if strncasecmp_eq ''audio/'' mime 6 then Inr (Some (strcasecmp_eq ''audio/raw'' mime))
      else find_audio_track tracks)"

text \<open>\<open>onPrepare\<close> from the bitrate on, for a data source and a track that were
  found.\<close>

definition start_source ::
  "prepare_world \<Rightarrow> DataSource \<Rightarrow> bool \<Rightarrow> SfPlayer \<Rightarrow> fault + (prepare_status \<times> SfPlayer)" where
  "start_source pw dataSource isRawAudio s =
     (let rated =
        (case (source_size pw, key_duration pw) of
           (Some sz, Some durationUs) \<Rightarrow>
             if durationUs = 0 then Inl DivByZero
             else Inr (s\<lparr> mBitrate := div64 (sz * 8000000) durationUs,
                         mDurationUsec := durationUs \<rparr>)
         | _ \<Rightarrow> Inr (s\<lparr> mBitrate := - 1, mDurationUsec := - 1 \<rparr>))
      in case rated of
           Inl e \<Rightarrow> Inl e
         | Inr s1 \<Rightarrow>
             if \<not> isRawAudio \<and> \<not> omx_connect_ok pw then Inl CheckFailed
             else if \<not> isRawAudio \<and> \<not> codec_created pw then Inr (ERROR_UNSUPPORTED, s1)
             else if \<not> source_start_ok pw then Inr (MEDIA_ERROR_BASE, s1)
             else
               (let s2 = s1\<lparr> mDataSource := Some dataSource, mAudioSource := Some [] \<rparr>
                in case (channel_count pw, sample_rate pw) of
                     (Some ch, Some hz) \<Rightarrow>
                       (let s3 = s2\<lparr> mNumChannels := ch, mSampleRateHz := hz \<rparr>
                        in if \<not> kWantsPrefetching dataSource then
                             Inr (SFPLAYER_SUCCESS,
                                  notifyCacheFill (notifyStatus
                                    (s3\<lparr> mCacheStatus := kStatusHigh, mCacheFill := 1000 \<rparr>)))
                           else Inr (SFPLAYER_SUCCESS, s3))
                   | _ \<Rightarrow> Inl CheckFailed))"

definition onPrepare :: "prepare_world \<Rightarrow> SfPlayer \<Rightarrow> fault + (prepare_status \<times> SfPlayer)" where
  "onPrepare pw s =
     (case open_data_source pw s of
        Inl e \<Rightarrow> Inl e
      | Inr (Inl status) \<Rightarrow> Inr (status, s)
      | Inr (Inr None) \<Rightarrow> Inr (ERROR_UNSUPPORTED, s)
      | Inr (Inr (Some dataSource)) \<Rightarrow>
          (case extractor_tracks pw of
             None \<Rightarrow> Inr (ERROR_UNSUPPORTED, s)
           | Some tracks \<Rightarrow>
               (case find_audio_track tracks of
                  Inl e \<Rightarrow> Inl e
                | Inr None \<Rightarrow> Inr (ERROR_UNSUPPORTED, s)
                | Inr (Some isRawAudio) \<Rightarrow> start_source pw dataSource isRawAudio s)))"

subsection \<open>The looper's dispatch\<close>

definition onMessageReceived ::
  "thresholds \<Rightarrow> world \<Rightarrow> prepare_world \<Rightarrow> AMessage \<Rightarrow> SfPlayer \<Rightarrow> fault + SfPlayer" where
  "onMessageReceived th w pw msg s =
     (case msg of
        kWhatPrepare \<Rightarrow> (case onPrepare pw s of Inl e \<Rightarrow> Inl e | Inr (status, s1) \<Rightarrow> Inr s1)
      | kWhatDecode \<Rightarrow> onDecode th w s
      | kWhatRender \<Rightarrow> onRender s
      | kWhatCheckCache \<Rightarrow> onCheckCache th w s
      | kWhatNotif n \<Rightarrow> Inr (onNotify n s)
      | kWhatPlay \<Rightarrow> Inr (onPlay s)
      | kWhatPause \<Rightarrow> Inr (onPause s)
      | kWhatSeek timeMsec \<Rightarrow> Inr (onSeek timeMsec s))"

section \<open>Runs and sample states\<close>

text \<open>The looper hands the queued messages to \<open>onMessageReceived\<close> one after the
  other; a fault ends the run.\<close>

fun deliver ::
  "thresholds \<Rightarrow> world \<Rightarrow> prepare_world \<Rightarrow> AMessage list \<Rightarrow> SfPlayer \<Rightarrow> fault + SfPlayer" where
  "deliver th w pw [] s = Inr s"
| "deliver th w pw (m # ms) s =
     (case onMessageReceived th w pw m s of Inl e \<Rightarrow> Inl e | Inr s1 \<Rightarrow> deliver th w pw ms s1)"

text \<open>A sequence of invocations of the cache estimator, one per answer of the cache;
  the result is the player after each invocation.\<close>

fun cache_checks :: "thresholds \<Rightarrow> SfPlayer \<Rightarrow> (uint32 \<times> bool) list \<Rightarrow> fault + SfPlayer list" where
  "cache_checks th s [] = Inr []"
| "cache_checks th s (a # as) =
     (case getCacheRemaining th a s of
        Inl e \<Rightarrow> Inl e
      | Inr (status, s1) \<Rightarrow>
          (case cache_checks th s1 as of Inl e \<Rightarrow> Inl e | Inr ss \<Rightarrow> Inr (s1 # ss)))"

text \<open>One configuration of the thresholds, used where a concrete one is needed: the
  durations are the defaults the spec suggests (20 s, 15 s, 3 s).\<close>

definition sample_thresholds :: thresholds where
  "sample_thresholds =
     \<lparr> DURATION_CACHED_HIGH_US = 20000000, DURATION_CACHED_MED_US = 15000000,
       DURATION_CACHED_LOW_US = 3000000, SIZE_CACHED_HIGH_BYTES = 1000000,
       SIZE_CACHED_MED_BYTES = 700000, SIZE_CACHED_LOW_BYTES = 400000 \<rparr>"

definition sample_buffer :: MediaBuffer where
  "sample_buffer =
     \<lparr> buf_data = [1, 2, 3, 4], range_offset = 1, range_length = 2, kKeyTime = Some 5000 \<rparr>"

text \<open>A player with a sink, Playing set and a decoded buffer waiting to be rendered.\<close>

definition render_ready :: SfPlayer where
  "render_ready =
     onPlay (SfPlayer_new\<lparr> mAudioTrack := Some [SinkStart], mDecodeBuffer := Some sample_buffer \<rparr>)"

text \<open>What \<open>getPositionMsec\<close> reads while a seek is pending: the Seeking bit and the
  seek target.\<close>

definition seek_part :: "SfPlayer \<Rightarrow> uint32 \<times> int64" where
  "seek_part s = (mFlags s AND kFlagSeeking, mSeekTimeMsec s)"

text \<open>Sample answers of the outside, and a prepared player that is playing from a local
  source, before and after \<open>seek(1500)\<close> was handled.\<close>

definition sample_world :: world where
  "sample_world =
     \<lparr> approxDataRemaining = (2000000, False), read_answer = ReadOK sample_buffer,
       now_anchor = 100, now_post = 100 \<rparr>"

definition sample_prepare_world :: prepare_world where
  "sample_prepare_world =
     \<lparr> http_connect_ok = True, cached_source = \<lparr> kWantsPrefetching = True \<rparr>,
       created_from_uri = Some \<lparr> kWantsPrefetching = False \<rparr>,
       file_source = \<lparr> kWantsPrefetching = False \<rparr>, file_initCheck = 0,
       extractor_tracks = Some [Some ''audio/mpeg''], source_size = Some 480000,
       key_duration = Some 30000000, omx_connect_ok = True, codec_created = True,
       source_start_ok = True, channel_count = Some 2, sample_rate = Some 44100 \<rparr>"

definition playing_player :: SfPlayer where
  "playing_player =
     onPlay (SfPlayer_new\<lparr> mAudioTrack := Some [SinkStart],
        mDataSource := Some \<lparr> kWantsPrefetching = False \<rparr>, mAudioSource := Some [] \<rparr>)"

definition seeking_player :: SfPlayer where
  "seeking_player = onSeek 1500 playing_player"

text \<open>A queued message that is a notification (neither a render nor a cache check).\<close>

definition is_notif :: "AMessage \<times> int64 \<Rightarrow> bool" where
  "is_notif p = (case fst p of kWhatNotif n \<Rightarrow> True | _ \<Rightarrow> False)"

text \<open>A prepared player over a prefetching source with none of its flags set, duration
  30 s and bitrate 128000 bit/s, and answers of the outside with 4000 bytes left in the
  cache (0.25 s).\<close>

definition idle_player :: SfPlayer where
  "idle_player =
     SfPlayer_new\<lparr> mDataSource := Some \<lparr> kWantsPrefetching = True \<rparr>, mAudioSource := Some [],
       mBitrate := 128000, mDurationUsec := 30000000 \<rparr>"

definition low_cache_world :: world where
  "low_cache_world = sample_world\<lparr> approxDataRemaining := (4000, False) \<rparr>"

text \<open>A player whose locator is an HTTP URI, the answers of a prepare that finds no
  duration for its track, and the player that prepare leaves.\<close>

definition http_player :: SfPlayer where
  "http_player = setDataSource True ''http://host/a.mp3'' SfPlayer_new"

definition unknown_duration_world :: prepare_world where
  "unknown_duration_world = sample_prepare_world\<lparr> key_duration := None \<rparr>"

definition prepared_unknown :: SfPlayer where
  "prepared_unknown =
     http_player\<lparr> mBitrate := - 1, mDurationUsec := - 1,
        mDataSource := Some \<lparr> kWantsPrefetching = True \<rparr>, mAudioSource := Some [],
        mNumChannels := 2, mSampleRateHz := 44100 \<rparr>"

text \<open>A player that holds the URI of a first \<open>setDataSource\<close>, and the idle player
  after a cache check that observed end-of-stream.\<close>

definition holding_uri :: SfPlayer where
  "holding_uri = setDataSource True ''a.mp3'' SfPlayer_new"

definition after_eos :: SfPlayer where
  "after_eos =
     idle_player\<lparr> mCacheStatus := kStatusHigh, mCacheFill := 1000,
        mLastNotifiedCacheFill := 1000,
        mRenderLooper := [(kWhatNotif (EVENT_PREFETCHSTATUSCHANGE kStatusHigh), 0),
                          (kWhatNotif (EVENT_PREFETCHFILLLEVELUPDATE 1000), 0)] \<rparr>"

section \<open>Properties\<close>

subsection \<open>Flags\<close>

lemma and_or_disjoint: "f AND g = 0 \<Longrightarrow> (x OR f) AND g = x AND (g::'a::len word)"
  by (simp add: bit.conj_disj_distrib2)

lemma and_not_self: "(x AND NOT f) AND f = (0::'a::len word)"
  by (simp add: and.assoc)

lemma and_not_disjoint: "f AND g = 0 \<Longrightarrow> (x AND NOT f) AND g = x AND (g::'a::len word)"
  by (auto simp: bit_eq_iff bit_simps)

lemma or_and_self: "(x OR f) AND f = (f::'a::len word)"
  by (simp add: and.commute)

lemmas flag_defs = kFlagPlaying_def kFlagPreparing_def kFlagBuffering_def kFlagSeeking_def

lemma flags_nonzero:
  "kFlagPlaying \<noteq> 0" "kFlagPreparing \<noteq> 0" "kFlagBuffering \<noteq> 0" "kFlagSeeking \<noteq> 0"
  by (simp_all add: flag_defs)

lemma flags_disjoint:
  "kFlagPlaying AND kFlagPreparing = 0" "kFlagPlaying AND kFlagBuffering = 0"
  "kFlagPlaying AND kFlagSeeking = 0" "kFlagPreparing AND kFlagPlaying = 0"
  "kFlagPreparing AND kFlagBuffering = 0" "kFlagPreparing AND kFlagSeeking = 0"
  "kFlagBuffering AND kFlagPlaying = 0" "kFlagBuffering AND kFlagPreparing = 0"
  "kFlagBuffering AND kFlagSeeking = 0" "kFlagSeeking AND kFlagPlaying = 0"
  "kFlagSeeking AND kFlagPreparing = 0" "kFlagSeeking AND kFlagBuffering = 0"
  by (simp_all add: flag_defs)

lemmas flag_simps =
  and_or_disjoint and_not_self and_not_disjoint or_and_self flags_nonzero flags_disjoint

lemma flag_set_post [simp]: "flag_set f (post m d s) = flag_set f s"
  by (simp add: flag_set_def post_def)

lemma no_flags_iff:
  "(mFlags s AND (kFlagPlaying OR kFlagBuffering OR kFlagPreparing) = 0)
   = (\<not> flag_set kFlagPlaying s \<and> \<not> flag_set kFlagBuffering s \<and> \<not> flag_set kFlagPreparing s)"
  by (auto simp: flag_set_def bit.conj_disj_distrib or_eq_0_iff)

lemma decode_frame_idle:
  "\<not> flag_set kFlagPlaying s \<Longrightarrow> \<not> flag_set kFlagBuffering s \<Longrightarrow> \<not> flag_set kFlagPreparing s
   \<Longrightarrow> decode_frame w s = Inr s"
  using no_flags_iff [of s] by (simp add: decode_frame_def)

lemma flags_some_iff:
  "(mFlags s AND (kFlagPlaying OR kFlagBuffering OR kFlagPreparing) \<noteq> 0)
   = (flag_set kFlagPlaying s \<or> flag_set kFlagBuffering s \<or> flag_set kFlagPreparing s)"
  using no_flags_iff [of s] by blast

subsection \<open>Values of the fill level\<close>

lemmas double_defs = fill_level_def int16_of_double_def double_divide_def double_mult_def
  double_of_int_def round_signed_def round_to_double_def Let_def

lemma fill_level_values:
  "fill_level 0 125000000 30000000 = 4166"
  "fill_level 60000000 0 30000000 = 2000"
  "fill_level 0 250000 30000000 = 8"
  "fill_level 0 0 30000000 = 0"
  by (simp_all add: double_defs bit_length.simps)

text \<open>The rounding shows where the exact quotient is just below an integer, and the
  conversion wraps where the quotient is not an int16_t.\<close>

lemma fill_level_rounded: "fill_level 0 9007199254740992 9007199254740992001 = 1"
  by (simp add: double_defs bit_length.simps)

lemma fill_level_wrapped: "sint (fill_level 1000000000 0 30000000) = - 32203"
  by (simp add: double_defs bit_length.simps)

subsection \<open>pause and stop without a sink\<close>

text \<open>
  C10. When no audio sink is bound (\<open>mAudioTrack\<close> is null), \<open>pause()\<close> and
  \<open>stop()\<close> return the player as it was: no flag changes, no sink call, no message
  is posted, and \<open>stop()\<close> does not seek to 0, so the position read back is the same.
\<close>

theorem pause_stop_unbound:
  "mAudioTrack s = None \<Longrightarrow>
     pause s = s \<and> stop s = s \<and> getPositionMsec (stop s) = getPositionMsec s"
  by (simp add: pause_def stop_def)

theorem pause_stop_unbound_witness:
  "mAudioTrack (onSeek 7 SfPlayer_new) = None
   \<and> pause (onSeek 7 SfPlayer_new) = onSeek 7 SfPlayer_new
   \<and> stop (onSeek 7 SfPlayer_new) = onSeek 7 SfPlayer_new
   \<and> getPositionMsec (stop (onSeek 7 SfPlayer_new)) = 7"
proof -
  have h: "mAudioTrack (onSeek 7 SfPlayer_new) = None"
    by (simp add: onSeek_def SfPlayer_new_def)
  have "getPositionMsec (onSeek 7 SfPlayer_new) = 7"
    by (simp add: getPositionMsec_def flag_set_def onSeek_def SfPlayer_new_def kFlagSeeking_def)
  with pause_stop_unbound [OF h] h show ?thesis by simp
qed

subsection \<open>setDataSource when the allocation fails\<close>

lemma resetDataLocator_type: "mDataLocatorType (resetDataLocator s) = kDataLocatorNone"
  by (simp add: resetDataLocator_def Let_def split: DataLocator.split option.split)

text \<open>
  C9, as amended. \<open>setDataSource(uri)\<close> resets the locator before it allocates the
  copy of the string. When the allocation fails, the call ends with the player that
  \<open>resetDataLocator\<close> left: the locator type is None whatever it was before; a URI
  string that was held has been freed and its pointer cleared; a descriptor range loses
  its tag only; and the player is as before the call only when the type was None already.
  Nothing else of the player changes.
\<close>

theorem setDataSource_alloc_failure:
  "setDataSource False u s = resetDataLocator s
   \<and> mDataLocatorType (setDataSource False u s) = kDataLocatorNone
   \<and> (mDataLocatorType s = kDataLocatorUri \<and> mDataLocator s = uri (Some str) \<longrightarrow>
        setDataSource False u s
          = s\<lparr> freed := freed s @ [str], mDataLocator := uri None,
                mDataLocatorType := kDataLocatorNone \<rparr>)
   \<and> (mDataLocatorType s = kDataLocatorFd \<longrightarrow>
        setDataSource False u s = s\<lparr> mDataLocatorType := kDataLocatorNone \<rparr>)
   \<and> (mDataLocatorType s = kDataLocatorNone \<longrightarrow> setDataSource False u s = s)"
proof -
  have p1: "setDataSource False u s = resetDataLocator s" by (simp add: setDataSource_def)
  have p2: "mDataLocatorType (setDataSource False u s) = kDataLocatorNone"
    by (simp add: p1 resetDataLocator_type)
  have p3: "mDataLocatorType s = kDataLocatorUri \<and> mDataLocator s = uri (Some str) \<longrightarrow>
        setDataSource False u s
          = s\<lparr> freed := freed s @ [str], mDataLocator := uri None,
                mDataLocatorType := kDataLocatorNone \<rparr>"
    by (simp add: p1 resetDataLocator_def)
  have p4: "mDataLocatorType s = kDataLocatorFd \<longrightarrow>
        setDataSource False u s = s\<lparr> mDataLocatorType := kDataLocatorNone \<rparr>"
    by (simp add: p1 resetDataLocator_def)
  have p5: "mDataLocatorType s = kDataLocatorNone \<longrightarrow> setDataSource False u s = s"
    by (simp add: p1 resetDataLocator_def)
  from p1 p2 p3 p4 p5 show ?thesis by (intro conjI)
qed

theorem setDataSource_alloc_failure_witness:
  "mDataLocatorType holding_uri = kDataLocatorUri
   \<and> mDataLocator holding_uri = uri (Some ''a.mp3'')
   \<and> freed holding_uri = []
   \<and> mDataLocatorType (setDataSource False ''b.mp3'' holding_uri) = kDataLocatorNone
   \<and> mDataLocator (setDataSource False ''b.mp3'' holding_uri) = uri None
   \<and> freed (setDataSource False ''b.mp3'' holding_uri) = [''a.mp3'']
   \<and> mDataLocatorType SfPlayer_new = kDataLocatorNone
   \<and> setDataSource False ''b.mp3'' SfPlayer_new = SfPlayer_new"
proof -
  have h: "mDataLocatorType holding_uri = kDataLocatorUri
      \<and> mDataLocator holding_uri = uri (Some ''a.mp3'')"
    by (simp add: holding_uri_def setDataSource_def Let_def)
  have f: "freed holding_uri = []"
    by (simp add: holding_uri_def setDataSource_def resetDataLocator_def SfPlayer_new_def)
  have n: "mDataLocatorType SfPlayer_new = kDataLocatorNone" by (simp add: SfPlayer_new_def)
  from setDataSource_alloc_failure [of "''b.mp3''" holding_uri "''a.mp3''"] h
  have e: "setDataSource False ''b.mp3'' holding_uri
      = holding_uri\<lparr> freed := freed holding_uri @ [''a.mp3''], mDataLocator := uri None,
                mDataLocatorType := kDataLocatorNone \<rparr>"
    by blast
  from setDataSource_alloc_failure [of "''b.mp3''" SfPlayer_new] n
  have g: "setDataSource False ''b.mp3'' SfPlayer_new = SfPlayer_new" by blast
  from h f n g show ?thesis by (simp add: e)
qed


text \<open>The claim as stated fails when a URI is held: after a first call that succeeds,
  a second call whose allocation fails leaves the type None, not Uri.\<close>

theorem setDataSource_alloc_failure_counterexample:
  "mDataLocatorType (setDataSource True ''a.mp3'' SfPlayer_new) = kDataLocatorUri
   \<and> mDataLocatorType (setDataSource False ''b.mp3'' (setDataSource True ''a.mp3'' SfPlayer_new))
       = kDataLocatorNone
   \<and> setDataSource False ''b.mp3'' (setDataSource True ''a.mp3'' SfPlayer_new)
       \<noteq> setDataSource True ''a.mp3'' SfPlayer_new"
proof -
  have a: "mDataLocatorType (setDataSource True ''a.mp3'' SfPlayer_new) = kDataLocatorUri"
    by (simp add: setDataSource_def Let_def)
  have b: "mDataLocatorType (setDataSource False ''b.mp3'' (setDataSource True ''a.mp3'' SfPlayer_new))
       = kDataLocatorNone"
    by (simp add: setDataSource_def resetDataLocator_type)
  from a b show ?thesis by auto
qed

subsection \<open>The render step\<close>

text \<open>
  C7, as amended. A render step with no pending buffer returns the player unchanged.
  With a pending buffer, Playing set and a sink bound, it writes the buffer's range to
  the sink, posts exactly one decode message, releases the buffer and empties the slot.
  With a pending buffer and Playing clear, it only releases the buffer and empties the
  slot: nothing is written and nothing is posted.
\<close>

theorem onRender_steps:
  "(mDecodeBuffer s = None \<longrightarrow> onRender s = Inr s)
   \<and> (mDecodeBuffer s = Some b \<and> flag_set kFlagPlaying s \<and> mAudioTrack s = Some calls \<longrightarrow>
        (\<exists>s'. onRender s = Inr s'
           \<and> mAudioTrack s' = Some (calls @
                [SinkWrite (take (range_length b) (drop (range_offset b) (buf_data b)))])
           \<and> mRenderLooper s' = mRenderLooper s @ [(kWhatDecode, 0)]
           \<and> released s' = released s @ [b] \<and> mDecodeBuffer s' = None
           \<and> mFlags s' = mFlags s))
   \<and> (mDecodeBuffer s = Some b \<and> \<not> flag_set kFlagPlaying s \<longrightarrow>
        onRender s = Inr (s\<lparr> released := released s @ [b], mDecodeBuffer := None \<rparr>))"
  by (simp add: onRender_def post_def)

theorem onRender_steps_witness:
  "mDecodeBuffer render_ready = Some sample_buffer \<and> flag_set kFlagPlaying render_ready
   \<and> mAudioTrack render_ready = Some [SinkStart]
   \<and> (\<exists>s'. onRender render_ready = Inr s'
         \<and> mAudioTrack s' = Some [SinkStart, SinkWrite [2, 3]]
         \<and> mRenderLooper s' = [(kWhatDecode, 0)]
         \<and> released s' = [sample_buffer] \<and> mDecodeBuffer s' = None)"
proof -
  have h: "mDecodeBuffer render_ready = Some sample_buffer \<and> flag_set kFlagPlaying render_ready
      \<and> mAudioTrack render_ready = Some [SinkStart]"
    by (simp add: render_ready_def onPlay_def flag_set_def SfPlayer_new_def kFlagPlaying_def)
  have q: "mRenderLooper render_ready = [] \<and> released render_ready = []"
    by (simp add: render_ready_def onPlay_def SfPlayer_new_def)
  have r: "take (range_length sample_buffer)
             (drop (range_offset sample_buffer) (buf_data sample_buffer)) = [2, 3]"
    by (simp add: sample_buffer_def)
  from onRender_steps [of render_ready sample_buffer "[SinkStart]"] h q r
  show ?thesis by simp blast
qed

text \<open>The claim as stated fails for a player with Playing set, a pending buffer and no
  sink (\<open>useAudioTrack(NULL)\<close> after \<open>play()\<close>): the step calls \<open>write\<close>
  through the null \<open>mAudioTrack\<close>.\<close>

theorem onRender_steps_counterexample:
  "mDecodeBuffer (useAudioTrack None render_ready) = Some sample_buffer
   \<and> flag_set kFlagPlaying (useAudioTrack None render_ready)
   \<and> onRender (useAudioTrack None render_ready) = Inl NullDeref"
  by (simp add: onRender_def useAudioTrack_def render_ready_def onPlay_def flag_set_def
        SfPlayer_new_def kFlagPlaying_def)

subsection \<open>What the estimator and the handlers leave alone\<close>

lemma getCacheRemaining_frame:
  assumes "getCacheRemaining th a s = Inr (st, s')"
  shows "s' = s\<lparr> mCacheStatus := mCacheStatus s', mCacheFill := mCacheFill s',
                  mLastNotifiedCacheFill := mLastNotifiedCacheFill s',
                  mRenderLooper := mRenderLooper s' \<rparr> \<and> st = mCacheStatus s'"
  using assms
  by (auto simp: getCacheRemaining_def notify_changes_def notifyStatus_def notifyCacheFill_def
        post_def Let_def split: option.splits if_splits sum.splits)

lemma getCacheRemaining_keeps:
  assumes "getCacheRemaining th a s = Inr (st, s')"
  shows "mFlags s' = mFlags s \<and> mSeekTimeMsec s' = mSeekTimeMsec s
         \<and> mAudioTrack s' = mAudioTrack s \<and> mDecodeBuffer s' = mDecodeBuffer s
         \<and> mAudioSource s' = mAudioSource s \<and> released s' = released s
         \<and> mLastDecodedPositionUs s' = mLastDecodedPositionUs s
         \<and> mBitrate s' = mBitrate s \<and> mDataSource s' = mDataSource s"
proof -
  from getCacheRemaining_frame [OF assms]
  obtain c f l q where "s' = s\<lparr> mCacheStatus := c, mCacheFill := f,
      mLastNotifiedCacheFill := l, mRenderLooper := q \<rparr>" by blast
  then show ?thesis by simp
qed

lemma getCacheRemaining_returns:
  "mDataSource s \<noteq> None \<Longrightarrow> 0 <s mBitrate s \<Longrightarrow>
     \<exists>st s'. getCacheRemaining th a s = Inr (st, s')"
  by (auto simp: getCacheRemaining_def Let_def word_sless_alt split: option.splits)

lemma getCacheRemaining_values:
  assumes "getCacheRemaining th a s = Inr (st, s')"
  shows "mCacheStatus s'
           = (if snd a then kStatusHigh
              else if 0 <s mDurationUsec s
              then status_by_duration th (div64 (ucast (fst a) * 8000000) (mBitrate s))
              else status_by_size th (fst a))
         \<and> mCacheFill s'
           = (if snd a then 1000
              else if 0 <s mDurationUsec s
              then fill_level (ucast (getPositionUsec s))
                     (div64 (ucast (fst a) * 8000000) (mBitrate s)) (mDurationUsec s)
              else mCacheFill s)"
  using assms
  by (auto simp: getCacheRemaining_def notify_changes_def notifyStatus_def notifyCacheFill_def
        post_def Let_def split: option.splits if_splits)

lemma getCacheRemaining_inputs:
  assumes "getCacheRemaining th a s = Inr (st, s')"
  shows "mDurationUsec s' = mDurationUsec s \<and> mBitrate s' = mBitrate s
         \<and> getPositionUsec s' = getPositionUsec s
         \<and> mCacheFillNotifThreshold s' = mCacheFillNotifThreshold s"
proof -
  from getCacheRemaining_frame [OF assms]
  obtain c f l q where "s' = s\<lparr> mCacheStatus := c, mCacheFill := f,
      mLastNotifiedCacheFill := l, mRenderLooper := q \<rparr>" by blast
  then show ?thesis by (simp add: getPositionUsec_def flag_set_def)
qed

lemma getCacheRemaining_one:
  assumes "getCacheRemaining th a s = Inr (st, s')"
  shows "st = mCacheStatus s'
     \<and> mCacheFillNotifThreshold s' = mCacheFillNotifThreshold s
     \<and> mRenderLooper s' = mRenderLooper s
          @ (if mCacheStatus s' \<noteq> mCacheStatus s
             then [(kWhatNotif (EVENT_PREFETCHSTATUSCHANGE (mCacheStatus s')), 0)] else [])
          @ (if sint (mCacheFillNotifThreshold s)
                  < \<bar>sint (mCacheFill s') - sint (mLastNotifiedCacheFill s)\<bar>
             then [(kWhatNotif (EVENT_PREFETCHFILLLEVELUPDATE (scast (mCacheFill s'))), 0)] else [])
     \<and> mLastNotifiedCacheFill s'
          = (if sint (mCacheFillNotifThreshold s)
                  < \<bar>sint (mCacheFill s') - sint (mLastNotifiedCacheFill s)\<bar>
             then mCacheFill s' else mLastNotifiedCacheFill s)"
  using assms
  by (auto simp: getCacheRemaining_def notify_changes_def notifyStatus_def notifyCacheFill_def
        post_def Let_def split: option.splits if_splits)

lemma getCacheRemaining_twice:
  assumes "getCacheRemaining th a s = Inr (st, s')" "getCacheRemaining th a s' = Inr (st2, s2)"
  shows "st2 = st \<and> mCacheStatus s2 = mCacheStatus s' \<and> mCacheFill s2 = mCacheFill s'"
proof -
  note i = getCacheRemaining_inputs [OF assms(1)]
  note v1 = getCacheRemaining_values [OF assms(1)]
  note v2 = getCacheRemaining_values [OF assms(2)]
  from v1 v2 i have "mCacheStatus s2 = mCacheStatus s' \<and> mCacheFill s2 = mCacheFill s'"
    by (simp split: if_splits)
  with getCacheRemaining_one [OF assms(1)] getCacheRemaining_one [OF assms(2)]
  show ?thesis by simp
qed

lemma getCacheRemaining_repeat:
  assumes "getCacheRemaining th a s = Inr (st, s')" "getCacheRemaining th a s' = Inr (st2, s2)"
    "0 \<le> sint (mCacheFillNotifThreshold s)"
  shows "s2 = s'"
proof -
  note o1 = getCacheRemaining_one [OF assms(1)]
  note o2 = getCacheRemaining_one [OF assms(2)]
  note tw = getCacheRemaining_twice [OF assms(1,2)]
  from o1 assms(3) have q: "\<not> sint (mCacheFillNotifThreshold s')
        < \<bar>sint (mCacheFill s') - sint (mLastNotifiedCacheFill s')\<bar>"
    by (simp split: if_splits)
  from o2 tw q have e: "mRenderLooper s2 = mRenderLooper s'
      \<and> mLastNotifiedCacheFill s2 = mLastNotifiedCacheFill s'"
    by simp
  from getCacheRemaining_frame [OF assms(2)] tw e show ?thesis by simp
qed


lemma seek_part_getCacheRemaining:
  "getCacheRemaining th a s = Inr (st, s') \<Longrightarrow> seek_part s' = seek_part s"
  by (simp add: seek_part_def getCacheRemaining_keeps)

lemma seek_part_buffer_more: "buffer_more s = Inr s' \<Longrightarrow> seek_part s' = seek_part s"
  by (auto simp: buffer_more_def seek_part_def post_def Let_def flag_simps
        split: if_splits option.splits)

lemma decode_frame_seek:
  assumes "decode_frame w s = Inr s'"
  shows "seek_part s' = seek_part s
         \<or> (\<exists>b t. read_answer w = ReadOK b \<and> kKeyTime b = Some t
               \<and> \<not> flag_set kFlagSeeking s' \<and> mLastDecodedPositionUs s' = t)"
  using assms
  by (auto simp: decode_frame_def schedule_render_def seek_part_def post_def Let_def flag_set_def
        flag_simps split: if_splits option.splits read_result.splits)

lemma onDecode_seek:
  assumes "onDecode th w s = Inr s'"
  shows "seek_part s' = seek_part s
         \<or> (\<exists>b t. read_answer w = ReadOK b \<and> kKeyTime b = Some t
               \<and> \<not> flag_set kFlagSeeking s' \<and> mLastDecodedPositionUs s' = t)"
proof (cases "mDataSource s")
  case None
  with assms show ?thesis by (simp add: onDecode_def)
next
  case (Some ds)
  show ?thesis
  proof (cases "kWantsPrefetching ds")
    case False
    with Some assms have "decode_frame w s = Inr s'" by (simp add: onDecode_def)
    then show ?thesis by (rule decode_frame_seek)
  next
    case True
    with Some assms obtain st s1 where
      g: "getCacheRemaining th (approxDataRemaining w) s = Inr (st, s1)"
      and r: "(if st = kStatusLow \<and> \<not> snd (approxDataRemaining w)
               then buffer_more s1 else decode_frame w s1) = Inr s'"
      by (auto simp: onDecode_def split: sum.splits)
    from g have k: "seek_part s1 = seek_part s" by (rule seek_part_getCacheRemaining)
    show ?thesis
    proof (cases "st = kStatusLow \<and> \<not> snd (approxDataRemaining w)")
      case True
      with r have "buffer_more s1 = Inr s'" by simp
      with k show ?thesis by (simp add: seek_part_buffer_more)
    next
      case False
      with r have "decode_frame w s1 = Inr s'" by simp
      from decode_frame_seek [OF this] k show ?thesis by simp
    qed
  qed
qed

lemma seek_part_onRender: "onRender s = Inr s' \<Longrightarrow> seek_part s' = seek_part s"
  by (auto simp: onRender_def seek_part_def post_def Let_def split: if_splits option.splits)

lemma seek_part_onCheckCache:
  assumes "onCheckCache th w s = Inr s'" shows "seek_part s' = seek_part s"
proof -
  from assms obtain st s1 where
    g: "getCacheRemaining th (approxDataRemaining w) s = Inr (st, s1)"
    and r: "seek_part s' = seek_part s1"
    by (auto simp: onCheckCache_def seek_part_def post_def Let_def flag_set_def flag_simps
          split: sum.splits if_splits option.splits)
  with seek_part_getCacheRemaining [OF g] show ?thesis by simp
qed

lemma seek_part_onPrepare: "onPrepare pw s = Inr (status, s') \<Longrightarrow> seek_part s' = seek_part s"
  by (auto simp: onPrepare_def start_source_def seek_part_def notifyStatus_def
        notifyCacheFill_def post_def Let_def
        split: sum.splits if_splits option.splits prod.splits)

lemma seek_part_simple:
  "seek_part (onNotify n s) = seek_part s" "seek_part (onPlay s) = seek_part s"
  "seek_part (onPause s) = seek_part s"
  by (simp_all add: seek_part_def onNotify_def onPlay_def onPause_def flag_simps
        split: option.splits)

lemma seek_part_api:
  "seek_part (play s) = seek_part s" "seek_part (pause s) = seek_part s"
  "seek_part (stop s) = seek_part s" "seek_part (seek T s) = seek_part s"
  "seek_part (useAudioTrack p s) = seek_part s" "seek_part (setNotifListener c s) = seek_part s"
  "seek_part (setDataSource ok u s) = seek_part s"
  by (simp_all add: seek_part_def play_def pause_def stop_def seek_def post_def useAudioTrack_def
        setNotifListener_def setDataSource_def resetDataLocator_def Let_def
        split: option.splits DataLocator.splits)

lemma seek_part_startPrefetch:
  "startPrefetch_async s = Inr s' \<Longrightarrow> seek_part s' = seek_part s"
  by (auto simp: startPrefetch_async_def seek_part_def post_def flag_simps
       split: option.splits if_splits)

lemma handler_seek:
  assumes "onMessageReceived th w pw m s = Inr s'"
  shows "seek_part s' = seek_part s
         \<or> (\<exists>T. m = kWhatSeek T)
         \<or> (m = kWhatDecode \<and> (\<exists>b t. read_answer w = ReadOK b \<and> kKeyTime b = Some t
               \<and> \<not> flag_set kFlagSeeking s' \<and> mLastDecodedPositionUs s' = t))"
proof (cases m)
  case kWhatDecode
  with assms have "onDecode th w s = Inr s'" by (simp add: onMessageReceived_def)
  from onDecode_seek [OF this] kWhatDecode show ?thesis by blast
next
  case kWhatPrepare
  with assms show ?thesis
    by (auto simp: onMessageReceived_def seek_part_onPrepare split: sum.splits)
next
  case kWhatRender
  with assms show ?thesis by (simp add: onMessageReceived_def seek_part_onRender)
next
  case kWhatCheckCache
  with assms show ?thesis by (simp add: onMessageReceived_def seek_part_onCheckCache)
next
  case (kWhatNotif n)
  with assms show ?thesis by (auto simp: onMessageReceived_def seek_part_simple)
next
  case kWhatPlay
  with assms show ?thesis by (auto simp: onMessageReceived_def seek_part_simple)
next
  case kWhatPause
  with assms show ?thesis by (auto simp: onMessageReceived_def seek_part_simple)
next
  case (kWhatSeek T)
  then show ?thesis by simp
qed


subsection \<open>Seeking and the position read back\<close>

lemma uint_ucast_in_range:
  "0 \<le> sint (T::int64) \<Longrightarrow> sint T < 4294967296 \<Longrightarrow> uint (ucast T :: uint32) = sint T"
proof -
  assume a: "0 \<le> sint T" and b: "sint T < 4294967296"
  from a b have e: "sint T = uint T" by (simp add: uint_sint take_bit_int_eq_self)
  have "uint (ucast T :: uint32) = take_bit 32 (uint T)"
    by (simp add: unsigned_ucast_eq)
  also have "\<dots> = uint T" using a b e by (simp add: take_bit_int_eq_self)
  finally show ?thesis using e by simp
qed

lemma uint_msec_of_timestamp:
  assumes "0 \<le> sint (t::int64)" "sint t < 4294967296000"
  shows "uint (ucast (div64 t 1000) :: uint32) = sint t div 1000"
proof -
  let ?k = "sint t div 1000"
  from assms have k: "0 \<le> ?k" "?k < 4294967296" by simp_all
  have d: "div64 t 1000 = word_of_int ?k"
    using assms by (simp add: div64_def signed_divide_int_def sgn_if)
  have s: "sint (word_of_int ?k :: int64) = ?k"
    using k by (simp add: sint_sbintrunc' signed_take_bit_int_eq_self)
  from uint_ucast_in_range [of "word_of_int ?k"] s k d show ?thesis by simp
qed

lemma getPositionMsec_onSeek: "getPositionMsec (onSeek T s) = ucast T"
  by (simp add: getPositionMsec_def flag_set_def onSeek_def flag_simps)

lemma flag_set_onSeek: "flag_set kFlagSeeking (onSeek T s)"
  by (simp add: flag_set_def onSeek_def flag_simps)

lemma getPositionMsec_seeking:
  "flag_set kFlagSeeking s \<Longrightarrow> seek_part s' = seek_part s \<Longrightarrow>
     flag_set kFlagSeeking s' \<and> getPositionMsec s' = getPositionMsec s"
  by (simp add: getPositionMsec_def flag_set_def seek_part_def)

lemma getPositionMsec_decoded:
  "\<not> flag_set kFlagSeeking s \<Longrightarrow>
     getPositionMsec s =
       (if mLastDecodedPositionUs s <s 0 then 0 else ucast (div64 (mLastDecodedPositionUs s) 1000))"
  by (simp add: getPositionMsec_def)



lemma decode_frame_read_ok:
  assumes "decode_frame w s = Inr s'" "mAudioSource s' \<noteq> mAudioSource s"
    "read_answer w = ReadOK b"
  shows "\<not> flag_set kFlagSeeking s' \<and> mDecodeBuffer s' = Some b
         \<and> (\<exists>t. kKeyTime b = Some t \<and> mLastDecodedPositionUs s' = t)"
  using assms
  by (auto simp: decode_frame_def schedule_render_def post_def Let_def flag_set_def flag_simps
        split: if_splits option.splits)

lemma buffer_more_source: "buffer_more s = Inr s' \<Longrightarrow> mAudioSource s' = mAudioSource s"
  by (auto simp: buffer_more_def post_def Let_def split: if_splits option.splits)

lemma onDecode_read_ok:
  assumes "onDecode th w s = Inr s'" "mAudioSource s' \<noteq> mAudioSource s"
    "read_answer w = ReadOK b"
  shows "\<not> flag_set kFlagSeeking s' \<and> mDecodeBuffer s' = Some b
         \<and> (\<exists>t. kKeyTime b = Some t \<and> mLastDecodedPositionUs s' = t)"
proof (cases "mDataSource s")
  case None
  with assms(1) show ?thesis by (simp add: onDecode_def)
next
  case (Some ds)
  show ?thesis
  proof (cases "kWantsPrefetching ds")
    case False
    with Some assms(1) have "decode_frame w s = Inr s'" by (simp add: onDecode_def)
    from decode_frame_read_ok [OF this assms(2,3)] show ?thesis .
  next
    case True
    with Some assms(1) obtain st s1 where
      g: "getCacheRemaining th (approxDataRemaining w) s = Inr (st, s1)"
      and r: "(if st = kStatusLow \<and> \<not> snd (approxDataRemaining w)
               then buffer_more s1 else decode_frame w s1) = Inr s'"
      by (auto simp: onDecode_def split: sum.splits)
    from getCacheRemaining_keeps [OF g] have k: "mAudioSource s1 = mAudioSource s" by simp
    show ?thesis
    proof (cases "st = kStatusLow \<and> \<not> snd (approxDataRemaining w)")
      case True
      with r have "buffer_more s1 = Inr s'" by simp
      from buffer_more_source [OF this] k assms(2) show ?thesis by simp
    next
      case False
      with r have d: "decode_frame w s1 = Inr s'" by simp
      from assms(2) k have "mAudioSource s' \<noteq> mAudioSource s1" by simp
      from decode_frame_read_ok [OF d this assms(3)] show ?thesis .
    qed
  qed
qed

lemma decode_frame_reads:
  assumes "mFlags s AND (kFlagPlaying OR kFlagBuffering OR kFlagPreparing) \<noteq> 0"
    "mAudioSource s = Some reads" "read_answer w = ReadOK b" "kKeyTime b = Some t"
  shows "\<exists>s'. decode_frame w s = Inr s' \<and> mAudioSource s' \<noteq> mAudioSource s"
  using assms by (simp add: decode_frame_def schedule_render_def post_def Let_def
      split: option.splits)


lemma onDecode_reads:
  assumes "mDataSource s = Some ds"
    "kWantsPrefetching ds \<longrightarrow>
       (\<exists>st s1. getCacheRemaining th (approxDataRemaining w) s = Inr (st, s1)
          \<and> \<not> (st = kStatusLow \<and> \<not> snd (approxDataRemaining w)))"
    "flag_set kFlagPlaying s \<or> flag_set kFlagBuffering s \<or> flag_set kFlagPreparing s"
    "mAudioSource s = Some reads" "read_answer w = ReadOK b" "kKeyTime b = Some t"
  shows "\<exists>s'. onDecode th w s = Inr s' \<and> mAudioSource s' \<noteq> mAudioSource s"
proof (cases "kWantsPrefetching ds")
  case False
  from assms(3) have f: "mFlags s AND (kFlagPlaying OR kFlagBuffering OR kFlagPreparing) \<noteq> 0"
    by (simp add: flags_some_iff)
  from decode_frame_reads [OF f assms(4,5,6)] False assms(1)
  show ?thesis by (simp add: onDecode_def)
next
  case True
  with assms(2) obtain st s1 where
    g: "getCacheRemaining th (approxDataRemaining w) s = Inr (st, s1)"
    and n: "\<not> (st = kStatusLow \<and> \<not> snd (approxDataRemaining w))" by blast
  note k = getCacheRemaining_keeps [OF g]
  from assms(3) k have "flag_set kFlagPlaying s1 \<or> flag_set kFlagBuffering s1
      \<or> flag_set kFlagPreparing s1"
    by (simp add: flag_set_def)
  then have f: "mFlags s1 AND (kFlagPlaying OR kFlagBuffering OR kFlagPreparing) \<noteq> 0"
    by (simp add: flags_some_iff)
  from k assms(4) have a: "mAudioSource s1 = Some reads" by simp
  from decode_frame_reads [OF f a assms(5,6)] obtain s' where
    d: "decode_frame w s1 = Inr s'" "mAudioSource s' \<noteq> mAudioSource s1" by blast
  from True assms(1) g n d(1) have "onDecode th w s = Inr s'" by (auto simp: onDecode_def)
  with d(2) k show ?thesis by simp
qed

lemma decode_ok_position:
  assumes "onDecode th w s = Inr s'" "mAudioSource s' \<noteq> mAudioSource s"
    "read_answer w = ReadOK b"
  shows "\<not> flag_set kFlagSeeking s'
         \<and> (\<exists>t. kKeyTime b = Some t
               \<and> getPositionMsec s' = (if t <s 0 then 0 else ucast (div64 t 1000))
               \<and> (0 \<le> sint t \<and> sint t < 4294967296000 \<longrightarrow>
                    uint (getPositionMsec s') = sint t div 1000))"
proof -
  from onDecode_read_ok [OF assms] obtain t where
    n: "\<not> flag_set kFlagSeeking s'" and t: "kKeyTime b = Some t"
    "mLastDecodedPositionUs s' = t" by blast
  from n t(2) have g: "getPositionMsec s' = (if t <s 0 then 0 else ucast (div64 t 1000))"
    by (simp add: getPositionMsec_decoded)
  have h: "0 \<le> sint t \<and> sint t < 4294967296000 \<longrightarrow> uint (getPositionMsec s') = sint t div 1000"
  proof (intro impI, elim conjE)
    assume r: "0 \<le> sint t" "sint t < 4294967296000"
    then have "\<not> t <s 0" by (simp add: word_sless_alt)
    with g uint_msec_of_timestamp [OF r] show "uint (getPositionMsec s') = sint t div 1000"
      by simp
  qed
  from t(1) g h have "kKeyTime b = Some t
               \<and> getPositionMsec s' = (if t <s 0 then 0 else ucast (div64 t 1000))
               \<and> (0 \<le> sint t \<and> sint t < 4294967296000 \<longrightarrow>
                    uint (getPositionMsec s') = sint t div 1000)"
    by (intro conjI)
  then have "\<exists>t. kKeyTime b = Some t
               \<and> getPositionMsec s' = (if t <s 0 then 0 else ucast (div64 t 1000))
               \<and> (0 \<le> sint t \<and> sint t < 4294967296000 \<longrightarrow>
                    uint (getPositionMsec s') = sint t div 1000)"
    by (rule exI)
  with n show ?thesis by (rule conjI)
qed

text \<open>
  C1, as amended. For every seek target \<open>T\<close> (an int64): right after the seek handler
  has applied it, Seeking is set and \<open>getPositionMsec()\<close> returns \<open>T\<close> cut to its
  low 32 bits, which is \<open>T\<close> when \<open>0 \<le> T < 2^32\<close>. While Seeking stays set, every
  handled message other than a new seek leaves the position read back as it is. Seeking
  is cleared only by a decode message whose read returned OK with a buffer that carries
  a timestamp \<open>t\<close>. Conversely, every decode step that makes a read and gets OK
  clears Seeking (whichever of Playing, Buffering, Preparing let it run), and a decode
  step does make that read when the player has a data source and a decoder, one of the
  three flags is set, and the re-buffer test does not divert it. After such a step
  \<open>getPositionMsec()\<close> returns 0 when \<open>t\<close> is negative and \<open>t / 1000\<close> cut to
  32 bits otherwise (which is \<open>t / 1000\<close> itself below \<open>2^32\<close> ms). With Seeking
  clear and \<open>mLastDecodedPositionUs\<close> negative (nothing decoded since the reset) it
  returns 0.
\<close>

theorem seek_position:
  "flag_set kFlagSeeking (onSeek T s)
   \<and> getPositionMsec (onSeek T s) = ucast T
   \<and> (0 \<le> sint T \<and> sint T < 4294967296 \<longrightarrow> uint (getPositionMsec (onSeek T s)) = sint T)
   \<and> (flag_set kFlagSeeking s \<and> onMessageReceived th w pw m s = Inr s'
        \<and> (\<forall>T'. m \<noteq> kWhatSeek T') \<and> flag_set kFlagSeeking s' \<longrightarrow>
          getPositionMsec s' = getPositionMsec s)
   \<and> (flag_set kFlagSeeking s \<and> onMessageReceived th w pw m s = Inr s'
        \<and> \<not> flag_set kFlagSeeking s' \<longrightarrow>
          m = kWhatDecode
          \<and> (\<exists>b t. read_answer w = ReadOK b \<and> kKeyTime b = Some t
                \<and> getPositionMsec s' = (if t <s 0 then 0 else ucast (div64 t 1000))
                \<and> (0 \<le> sint t \<and> sint t < 4294967296000 \<longrightarrow>
                     uint (getPositionMsec s') = sint t div 1000)))
   \<and> (\<not> flag_set kFlagSeeking s \<and> mLastDecodedPositionUs s <s 0 \<longrightarrow> getPositionMsec s = 0)
   \<and> (onMessageReceived th w pw kWhatDecode s = Inr s' \<and> mAudioSource s' \<noteq> mAudioSource s
        \<and> read_answer w = ReadOK b \<longrightarrow>
          \<not> flag_set kFlagSeeking s'
          \<and> (\<exists>t. kKeyTime b = Some t
                \<and> getPositionMsec s' = (if t <s 0 then 0 else ucast (div64 t 1000))
                \<and> (0 \<le> sint t \<and> sint t < 4294967296000 \<longrightarrow>
                     uint (getPositionMsec s') = sint t div 1000)))
   \<and> (mDataSource s = Some ds
        \<and> (kWantsPrefetching ds \<longrightarrow>
             (\<exists>st s1. getCacheRemaining th (approxDataRemaining w) s = Inr (st, s1)
                \<and> \<not> (st = kStatusLow \<and> \<not> snd (approxDataRemaining w))))
        \<and> (flag_set kFlagPlaying s \<or> flag_set kFlagBuffering s \<or> flag_set kFlagPreparing s)
        \<and> mAudioSource s = Some reads \<and> read_answer w = ReadOK b \<and> kKeyTime b = Some t \<longrightarrow>
          (\<exists>s'. onMessageReceived th w pw kWhatDecode s = Inr s'
             \<and> \<not> flag_set kFlagSeeking s'
             \<and> getPositionMsec s' = (if t <s 0 then 0 else ucast (div64 t 1000))))"
proof -
  have p1: "flag_set kFlagSeeking (onSeek T s)" by (rule flag_set_onSeek)
  have p2: "getPositionMsec (onSeek T s) = ucast T" by (rule getPositionMsec_onSeek)
  have p3: "0 \<le> sint T \<and> sint T < 4294967296 \<longrightarrow> uint (getPositionMsec (onSeek T s)) = sint T"
    unfolding p2 using uint_ucast_in_range [of T] by blast
  have p4: "flag_set kFlagSeeking s \<and> onMessageReceived th w pw m s = Inr s'
        \<and> (\<forall>T'. m \<noteq> kWhatSeek T') \<and> flag_set kFlagSeeking s' \<longrightarrow>
          getPositionMsec s' = getPositionMsec s"
  proof (intro impI, elim conjE)
    assume a: "flag_set kFlagSeeking s" "onMessageReceived th w pw m s = Inr s'"
      "\<forall>T'. m \<noteq> kWhatSeek T'" "flag_set kFlagSeeking s'"
    from handler_seek [OF a(2)] a(3,4) have "seek_part s' = seek_part s" by blast
    from getPositionMsec_seeking [OF a(1) this]
    show "getPositionMsec s' = getPositionMsec s" by (rule conjunct2)
  qed
  have p5: "flag_set kFlagSeeking s \<and> onMessageReceived th w pw m s = Inr s'
        \<and> \<not> flag_set kFlagSeeking s' \<longrightarrow>
          m = kWhatDecode
          \<and> (\<exists>b t. read_answer w = ReadOK b \<and> kKeyTime b = Some t
                \<and> getPositionMsec s' = (if t <s 0 then 0 else ucast (div64 t 1000))
                \<and> (0 \<le> sint t \<and> sint t < 4294967296000 \<longrightarrow>
                     uint (getPositionMsec s') = sint t div 1000))"
  proof (intro impI, elim conjE)
    assume a: "flag_set kFlagSeeking s" "onMessageReceived th w pw m s = Inr s'"
      "\<not> flag_set kFlagSeeking s'"
    have ns: "seek_part s' \<noteq> seek_part s"
    proof
      assume "seek_part s' = seek_part s"
      from getPositionMsec_seeking [OF a(1) this] a(3) show False by (simp only: simp_thms)
    qed
    have nk: "\<forall>T'. m \<noteq> kWhatSeek T'"
    proof (intro allI notI)
      fix T' assume "m = kWhatSeek T'"
      with a(2) have "s' = onSeek T' s" by (simp add: onMessageReceived_def)
      with a(3) flag_set_onSeek show False by simp
    qed
    from handler_seek [OF a(2)] ns nk obtain b t where
      d: "m = kWhatDecode" "read_answer w = ReadOK b" "kKeyTime b = Some t"
         "mLastDecodedPositionUs s' = t"
      by blast
    from a(3) d(4) have g: "getPositionMsec s' = (if t <s 0 then 0 else ucast (div64 t 1000))"
      by (simp add: getPositionMsec_decoded)
    have h: "0 \<le> sint t \<and> sint t < 4294967296000 \<longrightarrow> uint (getPositionMsec s') = sint t div 1000"
    proof (intro impI, elim conjE)
      assume r: "0 \<le> sint t" "sint t < 4294967296000"
      then have "\<not> t <s 0" by (simp add: word_sless_alt)
      with g uint_msec_of_timestamp [OF r] show "uint (getPositionMsec s') = sint t div 1000"
        by simp
    qed
    from d(2,3) g h have "read_answer w = ReadOK b \<and> kKeyTime b = Some t
                \<and> getPositionMsec s' = (if t <s 0 then 0 else ucast (div64 t 1000))
                \<and> (0 \<le> sint t \<and> sint t < 4294967296000 \<longrightarrow>
                     uint (getPositionMsec s') = sint t div 1000)"
      by (intro conjI)
    then have "\<exists>b t. read_answer w = ReadOK b \<and> kKeyTime b = Some t
                \<and> getPositionMsec s' = (if t <s 0 then 0 else ucast (div64 t 1000))
                \<and> (0 \<le> sint t \<and> sint t < 4294967296000 \<longrightarrow>
                     uint (getPositionMsec s') = sint t div 1000)"
      by (intro exI)
    with d(1) show "m = kWhatDecode
          \<and> (\<exists>b t. read_answer w = ReadOK b \<and> kKeyTime b = Some t
                \<and> getPositionMsec s' = (if t <s 0 then 0 else ucast (div64 t 1000))
                \<and> (0 \<le> sint t \<and> sint t < 4294967296000 \<longrightarrow>
                     uint (getPositionMsec s') = sint t div 1000))"
      by (intro conjI)
  qed
  have p6: "\<not> flag_set kFlagSeeking s \<and> mLastDecodedPositionUs s <s 0 \<longrightarrow> getPositionMsec s = 0"
    by (simp add: getPositionMsec_def)
  have p7: "onMessageReceived th w pw kWhatDecode s = Inr s' \<and> mAudioSource s' \<noteq> mAudioSource s
        \<and> read_answer w = ReadOK b \<longrightarrow>
          \<not> flag_set kFlagSeeking s'
          \<and> (\<exists>t. kKeyTime b = Some t
                \<and> getPositionMsec s' = (if t <s 0 then 0 else ucast (div64 t 1000))
                \<and> (0 \<le> sint t \<and> sint t < 4294967296000 \<longrightarrow>
                     uint (getPositionMsec s') = sint t div 1000))"
  proof (intro impI, elim conjE)
    assume a: "onMessageReceived th w pw kWhatDecode s = Inr s'"
      "mAudioSource s' \<noteq> mAudioSource s" "read_answer w = ReadOK b"
    from a(1) have "onDecode th w s = Inr s'" by (simp add: onMessageReceived_def)
    from decode_ok_position [OF this a(2,3)]
    show "\<not> flag_set kFlagSeeking s'
          \<and> (\<exists>t. kKeyTime b = Some t
                \<and> getPositionMsec s' = (if t <s 0 then 0 else ucast (div64 t 1000))
                \<and> (0 \<le> sint t \<and> sint t < 4294967296000 \<longrightarrow>
                     uint (getPositionMsec s') = sint t div 1000))" .
  qed
  have p8: "mDataSource s = Some ds
        \<and> (kWantsPrefetching ds \<longrightarrow>
             (\<exists>st s1. getCacheRemaining th (approxDataRemaining w) s = Inr (st, s1)
                \<and> \<not> (st = kStatusLow \<and> \<not> snd (approxDataRemaining w))))
        \<and> (flag_set kFlagPlaying s \<or> flag_set kFlagBuffering s \<or> flag_set kFlagPreparing s)
        \<and> mAudioSource s = Some reads \<and> read_answer w = ReadOK b \<and> kKeyTime b = Some t \<longrightarrow>
          (\<exists>s'. onMessageReceived th w pw kWhatDecode s = Inr s'
             \<and> \<not> flag_set kFlagSeeking s'
             \<and> getPositionMsec s' = (if t <s 0 then 0 else ucast (div64 t 1000)))"
  proof (intro impI, elim conjE)
    assume a: "mDataSource s = Some ds"
      "kWantsPrefetching ds \<longrightarrow>
             (\<exists>st s1. getCacheRemaining th (approxDataRemaining w) s = Inr (st, s1)
                \<and> \<not> (st = kStatusLow \<and> \<not> snd (approxDataRemaining w)))"
      "flag_set kFlagPlaying s \<or> flag_set kFlagBuffering s \<or> flag_set kFlagPreparing s"
      "mAudioSource s = Some reads" "read_answer w = ReadOK b" "kKeyTime b = Some t"
    from onDecode_reads [OF a] obtain u where
      d: "onDecode th w s = Inr u" "mAudioSource u \<noteq> mAudioSource s" by blast
    from decode_ok_position [OF d a(5)] a(6)
    have "\<not> flag_set kFlagSeeking u
        \<and> getPositionMsec u = (if t <s 0 then 0 else ucast (div64 t 1000))"
      by auto
    with d(1) have "onMessageReceived th w pw kWhatDecode s = Inr u
        \<and> \<not> flag_set kFlagSeeking u
        \<and> getPositionMsec u = (if t <s 0 then 0 else ucast (div64 t 1000))"
      by (simp add: onMessageReceived_def)
    then show "\<exists>s'. onMessageReceived th w pw kWhatDecode s = Inr s'
             \<and> \<not> flag_set kFlagSeeking s'
             \<and> getPositionMsec s' = (if t <s 0 then 0 else ucast (div64 t 1000))"
      by (rule exI)
  qed
  from p1 p2 p3 p4 p5 p6 p7 p8 show ?thesis by (intro conjI)
qed

theorem seek_position_witness:
  "flag_set kFlagSeeking seeking_player \<and> getPositionMsec seeking_player = 1500
   \<and> mDataSource seeking_player = Some \<lparr> kWantsPrefetching = False \<rparr>
   \<and> flag_set kFlagPlaying seeking_player \<and> mAudioSource seeking_player = Some []
   \<and> read_answer sample_world = ReadOK sample_buffer \<and> kKeyTime sample_buffer = Some 5000
   \<and> (\<exists>s'. onMessageReceived sample_thresholds sample_world sample_prepare_world kWhatDecode
               seeking_player = Inr s'
          \<and> \<not> flag_set kFlagSeeking s' \<and> getPositionMsec s' = 5)"
proof -
  from seek_position [of 1500 playing_player]
  have a: "flag_set kFlagSeeking seeking_player \<and> getPositionMsec seeking_player = 1500"
    by (simp add: seeking_player_def)
  have h: "mDataSource seeking_player = Some \<lparr> kWantsPrefetching = False \<rparr>
      \<and> flag_set kFlagPlaying seeking_player \<and> mAudioSource seeking_player = Some []"
    by (simp add: seeking_player_def playing_player_def onSeek_def onPlay_def SfPlayer_new_def
          flag_set_def flag_defs)
  have r: "read_answer sample_world = ReadOK sample_buffer \<and> kKeyTime sample_buffer = Some 5000"
    by (simp add: sample_world_def sample_buffer_def)
  have v: "(if (5000::int64) <s 0 then 0 else ucast (div64 5000 1000)) = (5::uint32)"
    by (simp add: word_sless_alt div64_def)
  from seek_position [of 0 seeking_player sample_thresholds sample_world
      sample_prepare_world kWhatDecode seeking_player sample_buffer
      "\<lparr> kWantsPrefetching = False \<rparr>" "[]" 5000] h r
  have "\<exists>s'. onMessageReceived sample_thresholds sample_world sample_prepare_world kWhatDecode
               seeking_player = Inr s'
          \<and> \<not> flag_set kFlagSeeking s'
          \<and> getPositionMsec s' = (if (5000::int64) <s 0 then 0 else ucast (div64 5000 1000))"
    by simp
  then have "\<exists>s'. onMessageReceived sample_thresholds sample_world sample_prepare_world
               kWhatDecode seeking_player = Inr s'
          \<and> \<not> flag_set kFlagSeeking s' \<and> getPositionMsec s' = 5"
    unfolding v .
  with a h r show ?thesis by (simp only: simp_thms)
qed

text \<open>The claim as stated fails for a target that is not a uint32:
  after \<open>seek(4294967301)\<close> the position read back is 5.\<close>

theorem seek_position_counterexample:
  "getPositionMsec (onSeek 4294967301 SfPlayer_new) = 5
   \<and> sint (4294967301 :: int64) = 4294967301
   \<and> uint (getPositionMsec (onSeek 4294967301 SfPlayer_new)) \<noteq> sint (4294967301 :: int64)"
  by (simp add: getPositionMsec_onSeek)

subsection \<open>stop with a sink\<close>

lemma onPause_onSeek_flags:
  "\<not> flag_set kFlagPlaying (onSeek 0 (onPause t)) \<and> flag_set kFlagSeeking (onSeek 0 (onPause t))
   \<and> getPositionMsec (onSeek 0 (onPause t)) = 0"
  by (simp add: flag_set_def onSeek_def onPause_def getPositionMsec_def flag_simps)

lemma seeking_until_decode:
  assumes "flag_set kFlagSeeking u" "onMessageReceived th w pw m u = Inr u'"
    "\<forall>T. m \<noteq> kWhatSeek T"
  shows "(flag_set kFlagSeeking u' \<and> getPositionMsec u' = getPositionMsec u)
         \<or> (m = kWhatDecode \<and> (\<exists>b. read_answer w = ReadOK b))"
proof -
  from handler_seek [OF assms(2)] assms(3)
  have "seek_part u' = seek_part u \<or> (m = kWhatDecode \<and> (\<exists>b. read_answer w = ReadOK b))"
    by blast
  then show ?thesis
  proof
    assume "seek_part u' = seek_part u"
    from getPositionMsec_seeking [OF assms(1) this] show ?thesis by (rule disjI1)
  next
    assume "m = kWhatDecode \<and> (\<exists>b. read_answer w = ReadOK b)"
    then show ?thesis by (rule disjI2)
  qed
qed

text \<open>
  C8, as amended. A call of \<open>stop()\<close> with a sink bound stops the sink
  (\<open>AudioTrack::stop\<close>, not \<open>pause\<close>), and posts a pause message and a
  seek-to-0 message; it changes no flag itself. Once the looper has handled these two
  messages, Playing is clear, Seeking is set and \<open>getPositionMsec()\<close> returns 0.
  From then on every handled message other than a new seek leaves Seeking set and the
  position 0, unless it is a decode whose read returned OK.
\<close>

theorem stop_with_sink:
  "mAudioTrack s = Some calls \<Longrightarrow>
     mAudioTrack (stop s) = Some (calls @ [SinkStop])
     \<and> mRenderLooper (stop s) = mRenderLooper s @ [(kWhatPause, 0), (kWhatSeek 0, 0)]
     \<and> mFlags (stop s) = mFlags s
     \<and> (\<exists>t'. deliver th w pw [kWhatPause, kWhatSeek 0] t = Inr t'
           \<and> \<not> flag_set kFlagPlaying t' \<and> flag_set kFlagSeeking t' \<and> getPositionMsec t' = 0)
     \<and> (flag_set kFlagSeeking u \<and> getPositionMsec u = 0
          \<and> onMessageReceived th w pw m u = Inr u' \<and> (\<forall>T. m \<noteq> kWhatSeek T) \<longrightarrow>
            (flag_set kFlagSeeking u' \<and> getPositionMsec u' = 0)
            \<or> (m = kWhatDecode \<and> (\<exists>b. read_answer w = ReadOK b)))"
proof -
  assume a: "mAudioTrack s = Some calls"
  have p1: "mAudioTrack (stop s) = Some (calls @ [SinkStop])"
    using a by (simp add: stop_def seek_def post_def)
  have p2: "mRenderLooper (stop s) = mRenderLooper s @ [(kWhatPause, 0), (kWhatSeek 0, 0)]"
    using a by (simp add: stop_def seek_def post_def)
  have p3: "mFlags (stop s) = mFlags s"
    using a by (simp add: stop_def seek_def post_def)
  have p4: "\<exists>t'. deliver th w pw [kWhatPause, kWhatSeek 0] t = Inr t'
           \<and> \<not> flag_set kFlagPlaying t' \<and> flag_set kFlagSeeking t' \<and> getPositionMsec t' = 0"
    using onPause_onSeek_flags [of t] by (simp add: onMessageReceived_def)
  have p5: "flag_set kFlagSeeking u \<and> getPositionMsec u = 0
          \<and> onMessageReceived th w pw m u = Inr u' \<and> (\<forall>T. m \<noteq> kWhatSeek T) \<longrightarrow>
            (flag_set kFlagSeeking u' \<and> getPositionMsec u' = 0)
            \<or> (m = kWhatDecode \<and> (\<exists>b. read_answer w = ReadOK b))"
  proof (intro impI, elim conjE)
    assume b: "flag_set kFlagSeeking u" "getPositionMsec u = 0"
      "onMessageReceived th w pw m u = Inr u'" "\<forall>T. m \<noteq> kWhatSeek T"
    from seeking_until_decode [OF b(1,3,4)] b(2)
    show "(flag_set kFlagSeeking u' \<and> getPositionMsec u' = 0)
            \<or> (m = kWhatDecode \<and> (\<exists>b. read_answer w = ReadOK b))"
      by (simp only:)
  qed
  from p1 p2 p3 p4 p5 show ?thesis by (intro conjI)
qed

theorem stop_with_sink_witness:
  "mAudioTrack playing_player = Some [SinkStart]
   \<and> mAudioTrack (stop playing_player) = Some [SinkStart, SinkStop]
   \<and> mRenderLooper (stop playing_player) = [(kWhatPause, 0), (kWhatSeek 0, 0)]
   \<and> (\<exists>t'. deliver sample_thresholds sample_world sample_prepare_world
               [kWhatPause, kWhatSeek 0] (stop playing_player) = Inr t'
          \<and> \<not> flag_set kFlagPlaying t' \<and> flag_set kFlagSeeking t' \<and> getPositionMsec t' = 0)"
proof -
  have h: "mAudioTrack playing_player = Some [SinkStart]"
    by (simp add: playing_player_def onPlay_def SfPlayer_new_def)
  have q: "mRenderLooper playing_player = []"
    by (simp add: playing_player_def onPlay_def SfPlayer_new_def)
  from stop_with_sink [OF h, of sample_thresholds sample_world sample_prepare_world
      "stop playing_player"] h q
  show ?thesis by simp
qed

text \<open>The claim as stated fails at the sink call, which is \<open>stop\<close>, and at the
  flags, which \<open>stop()\<close> itself leaves as they are: Playing is still set and Seeking
  still clear when it returns.\<close>

theorem stop_with_sink_counterexample:
  "mAudioTrack playing_player = Some [SinkStart]
   \<and> mAudioTrack (stop playing_player) = Some [SinkStart, SinkStop]
   \<and> mAudioTrack (stop playing_player) \<noteq> Some [SinkStart, SinkPause]
   \<and> flag_set kFlagPlaying (stop playing_player)
   \<and> \<not> flag_set kFlagSeeking (stop playing_player)"
  by (simp add: stop_def seek_def post_def playing_player_def onPlay_def SfPlayer_new_def
        flag_set_def flag_defs)

subsection \<open>A decode step with no flag set\<close>

lemma notify_changes_queue:
  "\<exists>ns. mRenderLooper (notify_changes old s) = mRenderLooper s @ ns \<and> list_all is_notif ns"
  by (simp add: notify_changes_def notifyStatus_def notifyCacheFill_def post_def Let_def is_notif_def)

lemma getCacheRemaining_queue:
  assumes "getCacheRemaining th a s = Inr (st, s')"
  shows "\<exists>ns. mRenderLooper s' = mRenderLooper s @ ns \<and> list_all is_notif ns"
  using assms
  by (auto simp: getCacheRemaining_def notify_changes_def notifyStatus_def notifyCacheFill_def
        post_def Let_def is_notif_def split: option.splits if_splits sum.splits)

text \<open>
  C6, as amended. Take a player with none of Playing, Buffering, Preparing set and a data
  source. If the source does not want prefetching, a decode step returns the player
  unchanged. If it does, the step runs the cache estimator first: when that reports
  anything but Low without end-of-stream, the step ends with the estimator's result, with
  no flag changed, no sink call, the pending buffer and the decoder untouched and nothing
  but the estimator's notifications posted; when it reports Low without end-of-stream,
  the step sets Buffering and schedules a cache check.
\<close>

theorem onDecode_idle:
  "\<not> flag_set kFlagPlaying s \<and> \<not> flag_set kFlagBuffering s \<and> \<not> flag_set kFlagPreparing s
   \<and> mDataSource s = Some ds \<Longrightarrow>
     (\<not> kWantsPrefetching ds \<longrightarrow> onDecode th w s = Inr s)
     \<and> (kWantsPrefetching ds
          \<and> getCacheRemaining th (approxDataRemaining w) s = Inr (st, s1)
          \<and> \<not> (st = kStatusLow \<and> \<not> snd (approxDataRemaining w)) \<longrightarrow>
            onDecode th w s = Inr s1 \<and> mFlags s1 = mFlags s \<and> mAudioTrack s1 = mAudioTrack s
            \<and> mDecodeBuffer s1 = mDecodeBuffer s \<and> released s1 = released s
            \<and> mAudioSource s1 = mAudioSource s
            \<and> (\<exists>ns. mRenderLooper s1 = mRenderLooper s @ ns \<and> list_all is_notif ns))
     \<and> (kWantsPrefetching ds
          \<and> getCacheRemaining th (approxDataRemaining w) s = Inr (st, s1)
          \<and> st = kStatusLow \<and> \<not> snd (approxDataRemaining w) \<longrightarrow>
            onDecode th w s
              = Inr (post kWhatCheckCache 100000 (s1\<lparr> mFlags := mFlags s1 OR kFlagBuffering \<rparr>)))"
proof -
  assume a: "\<not> flag_set kFlagPlaying s \<and> \<not> flag_set kFlagBuffering s
     \<and> \<not> flag_set kFlagPreparing s \<and> mDataSource s = Some ds"
  then have idle: "decode_frame w s = Inr s" by (simp add: decode_frame_idle)
  have p1: "\<not> kWantsPrefetching ds \<longrightarrow> onDecode th w s = Inr s"
    using a idle by (simp add: onDecode_def)
  have p2: "kWantsPrefetching ds
          \<and> getCacheRemaining th (approxDataRemaining w) s = Inr (st, s1)
          \<and> \<not> (st = kStatusLow \<and> \<not> snd (approxDataRemaining w)) \<longrightarrow>
            onDecode th w s = Inr s1 \<and> mFlags s1 = mFlags s \<and> mAudioTrack s1 = mAudioTrack s
            \<and> mDecodeBuffer s1 = mDecodeBuffer s \<and> released s1 = released s
            \<and> mAudioSource s1 = mAudioSource s
            \<and> (\<exists>ns. mRenderLooper s1 = mRenderLooper s @ ns \<and> list_all is_notif ns)"
  proof (intro impI, elim conjE)
    assume b: "kWantsPrefetching ds"
      "getCacheRemaining th (approxDataRemaining w) s = Inr (st, s1)"
      "\<not> (st = kStatusLow \<and> \<not> snd (approxDataRemaining w))"
    note k = getCacheRemaining_keeps [OF b(2)]
    from k a have "decode_frame w s1 = Inr s1"
      by (simp add: decode_frame_idle flag_set_def)
    with a b have d: "onDecode th w s = Inr s1" by (auto simp: onDecode_def)
    from d k getCacheRemaining_queue [OF b(2)]
    show "onDecode th w s = Inr s1 \<and> mFlags s1 = mFlags s \<and> mAudioTrack s1 = mAudioTrack s
            \<and> mDecodeBuffer s1 = mDecodeBuffer s \<and> released s1 = released s
            \<and> mAudioSource s1 = mAudioSource s
            \<and> (\<exists>ns. mRenderLooper s1 = mRenderLooper s @ ns \<and> list_all is_notif ns)"
      by (simp only: simp_thms)
  qed
  have p3: "kWantsPrefetching ds
          \<and> getCacheRemaining th (approxDataRemaining w) s = Inr (st, s1)
          \<and> st = kStatusLow \<and> \<not> snd (approxDataRemaining w) \<longrightarrow>
            onDecode th w s
              = Inr (post kWhatCheckCache 100000 (s1\<lparr> mFlags := mFlags s1 OR kFlagBuffering \<rparr>))"
  proof (intro impI, elim conjE)
    assume b: "kWantsPrefetching ds"
      "getCacheRemaining th (approxDataRemaining w) s = Inr (st, s1)"
      "st = kStatusLow" "\<not> snd (approxDataRemaining w)"
    note k = getCacheRemaining_keeps [OF b(2)]
    from k a have "\<not> flag_set kFlagPlaying s1" by (simp add: flag_set_def)
    then have "buffer_more s1
        = Inr (post kWhatCheckCache 100000 (s1\<lparr> mFlags := mFlags s1 OR kFlagBuffering \<rparr>))"
      by (simp add: buffer_more_def)
    with a b show "onDecode th w s
              = Inr (post kWhatCheckCache 100000 (s1\<lparr> mFlags := mFlags s1 OR kFlagBuffering \<rparr>))"
      by (simp add: onDecode_def)
  qed
  from p1 p2 p3 show ?thesis by (intro conjI)
qed

lemma idle_player_flags:
  "\<not> flag_set kFlagPlaying idle_player \<and> \<not> flag_set kFlagBuffering idle_player
   \<and> \<not> flag_set kFlagPreparing idle_player
   \<and> mDataSource idle_player = Some \<lparr> kWantsPrefetching = True \<rparr>"
  by (simp add: idle_player_def SfPlayer_new_def flag_set_def)

lemma idle_player_low:
  "getCacheRemaining sample_thresholds (approxDataRemaining low_cache_world) idle_player
     = Inr (kStatusLow, idle_player\<lparr> mCacheStatus := kStatusLow, mCacheFill := 8,
              mRenderLooper := [(kWhatNotif (EVENT_PREFETCHSTATUSCHANGE kStatusLow), 0)] \<rparr>)"
  by (simp add: getCacheRemaining_def low_cache_world_def sample_world_def idle_player_def
        SfPlayer_new_def word_sless_alt div64_def fill_level_values getPositionUsec_def flag_set_def
        flag_defs status_by_duration_def sample_thresholds_def notify_changes_def
        notifyStatus_def post_def Let_def)

theorem onDecode_idle_witness:
  "\<not> flag_set kFlagPlaying idle_player \<and> \<not> flag_set kFlagBuffering idle_player
   \<and> \<not> flag_set kFlagPreparing idle_player
   \<and> (\<exists>s1. getCacheRemaining sample_thresholds (approxDataRemaining low_cache_world) idle_player
               = Inr (kStatusLow, s1)
          \<and> onDecode sample_thresholds low_cache_world idle_player
               = Inr (post kWhatCheckCache 100000 (s1\<lparr> mFlags := mFlags s1 OR kFlagBuffering \<rparr>)))"
proof -
  have n: "\<not> snd (approxDataRemaining low_cache_world)"
    by (simp add: low_cache_world_def sample_world_def)
  from onDecode_idle [OF idle_player_flags, of sample_thresholds low_cache_world kStatusLow]
    idle_player_low idle_player_flags n
  show ?thesis by simp
qed

text \<open>The claim as stated fails for a prefetching source whose cache is low: the step
  sets Buffering and schedules a cache check.\<close>

theorem onDecode_idle_counterexample:
  "\<not> flag_set kFlagPlaying idle_player \<and> \<not> flag_set kFlagBuffering idle_player
   \<and> \<not> flag_set kFlagPreparing idle_player
   \<and> map_sum id mFlags (onDecode sample_thresholds low_cache_world idle_player)
        = Inr kFlagBuffering
   \<and> map_sum id mRenderLooper (onDecode sample_thresholds low_cache_world idle_player)
        = Inr [(kWhatNotif (EVENT_PREFETCHSTATUSCHANGE kStatusLow), 0), (kWhatCheckCache, 100000)]
   \<and> map_sum id mCacheStatus (onDecode sample_thresholds low_cache_world idle_player)
        = Inr kStatusLow"
proof -
  have "onDecode sample_thresholds low_cache_world idle_player
      = buffer_more (idle_player\<lparr> mCacheStatus := kStatusLow, mCacheFill := 8,
              mRenderLooper := [(kWhatNotif (EVENT_PREFETCHSTATUSCHANGE kStatusLow), 0)] \<rparr>)"
    using idle_player_flags
    by (simp add: onDecode_def idle_player_low) (simp add: low_cache_world_def sample_world_def)
  then show ?thesis using idle_player_flags
    by (simp add: buffer_more_def flag_set_def post_def idle_player_def SfPlayer_new_def)
qed

subsection \<open>The notifications of the cache estimator\<close>

lemma idle_player_eos:
  "getCacheRemaining sample_thresholds (0, True) idle_player
     = Inr (kStatusHigh, idle_player\<lparr> mCacheStatus := kStatusHigh, mCacheFill := 1000,
              mLastNotifiedCacheFill := 1000,
              mRenderLooper := [(kWhatNotif (EVENT_PREFETCHSTATUSCHANGE kStatusHigh), 0),
                                (kWhatNotif (EVENT_PREFETCHFILLLEVELUPDATE 1000), 0)] \<rparr>)"
  by (simp add: getCacheRemaining_def idle_player_def SfPlayer_new_def word_sless_alt
        notify_changes_def notifyStatus_def notifyCacheFill_def post_def Let_def)

text \<open>
  C3. On every invocation of the cache estimator that returns, the status returned is
  the new \<open>mCacheStatus\<close>, and the messages posted are exactly: first a status
  notification if and only if the new status differs from the status at entry, then a
  fill notification if and only if \<open>|newFill - lastNotifiedFill| > threshold\<close>. After
  a fill notification \<open>mLastNotifiedCacheFill\<close> is the new fill; without one it is
  unchanged. Over two invocations in a row, the status at entry of the second is the
  status the first returned, so the second posts a status notification if and only if
  the two returned statuses differ. When the second invocation gets the same answer from
  the cache as the first, it returns the same status and computes the same fill, and
  posts no status notification; with a threshold that is not negative it posts nothing
  and leaves the player as the first invocation left it. The two tests are independent,
  so both notifications can be posted by one invocation (the first invocation of the
  witness). With a data source and a positive bitrate the estimator returns.
\<close>

theorem cache_notifications:
  "(getCacheRemaining th a s = Inr (st, s') \<longrightarrow>
      st = mCacheStatus s'
      \<and> mCacheFillNotifThreshold s' = mCacheFillNotifThreshold s
      \<and> mRenderLooper s' = mRenderLooper s
           @ (if mCacheStatus s' \<noteq> mCacheStatus s
              then [(kWhatNotif (EVENT_PREFETCHSTATUSCHANGE (mCacheStatus s')), 0)] else [])
           @ (if sint (mCacheFillNotifThreshold s)
                   < \<bar>sint (mCacheFill s') - sint (mLastNotifiedCacheFill s)\<bar>
              then [(kWhatNotif (EVENT_PREFETCHFILLLEVELUPDATE (scast (mCacheFill s'))), 0)]
              else [])
      \<and> mLastNotifiedCacheFill s'
           = (if sint (mCacheFillNotifThreshold s)
                   < \<bar>sint (mCacheFill s') - sint (mLastNotifiedCacheFill s)\<bar>
              then mCacheFill s' else mLastNotifiedCacheFill s))
   \<and> (getCacheRemaining th a s = Inr (st, s') \<and> getCacheRemaining th a' s' = Inr (st2, s2) \<longrightarrow>
        mRenderLooper s2 = mRenderLooper s'
           @ (if st2 \<noteq> st
              then [(kWhatNotif (EVENT_PREFETCHSTATUSCHANGE st2), 0)] else [])
           @ (if sint (mCacheFillNotifThreshold s')
                   < \<bar>sint (mCacheFill s2) - sint (mLastNotifiedCacheFill s')\<bar>
              then [(kWhatNotif (EVENT_PREFETCHFILLLEVELUPDATE (scast (mCacheFill s2))), 0)]
              else []))
   \<and> (getCacheRemaining th a s = Inr (st, s') \<and> getCacheRemaining th a s' = Inr (st2, s2) \<longrightarrow>
        st2 = st \<and> mCacheFill s2 = mCacheFill s'
        \<and> mRenderLooper s2 = mRenderLooper s'
           @ (if sint (mCacheFillNotifThreshold s')
                   < \<bar>sint (mCacheFill s2) - sint (mLastNotifiedCacheFill s')\<bar>
              then [(kWhatNotif (EVENT_PREFETCHFILLLEVELUPDATE (scast (mCacheFill s2))), 0)]
              else [])
        \<and> (0 \<le> sint (mCacheFillNotifThreshold s) \<longrightarrow> s2 = s'))
   \<and> (mDataSource s \<noteq> None \<and> 0 <s mBitrate s \<longrightarrow>
        (\<exists>st s'. getCacheRemaining th a s = Inr (st, s')))"
proof -
  have p1: "getCacheRemaining th a s = Inr (st, s') \<longrightarrow>
      st = mCacheStatus s'
      \<and> mCacheFillNotifThreshold s' = mCacheFillNotifThreshold s
      \<and> mRenderLooper s' = mRenderLooper s
           @ (if mCacheStatus s' \<noteq> mCacheStatus s
              then [(kWhatNotif (EVENT_PREFETCHSTATUSCHANGE (mCacheStatus s')), 0)] else [])
           @ (if sint (mCacheFillNotifThreshold s)
                   < \<bar>sint (mCacheFill s') - sint (mLastNotifiedCacheFill s)\<bar>
              then [(kWhatNotif (EVENT_PREFETCHFILLLEVELUPDATE (scast (mCacheFill s'))), 0)]
              else [])
      \<and> mLastNotifiedCacheFill s'
           = (if sint (mCacheFillNotifThreshold s)
                   < \<bar>sint (mCacheFill s') - sint (mLastNotifiedCacheFill s)\<bar>
              then mCacheFill s' else mLastNotifiedCacheFill s)"
    using getCacheRemaining_one [of th a s st s'] by blast
  have p2: "getCacheRemaining th a s = Inr (st, s') \<and> getCacheRemaining th a' s' = Inr (st2, s2)
      \<longrightarrow> mRenderLooper s2 = mRenderLooper s'
           @ (if st2 \<noteq> st
              then [(kWhatNotif (EVENT_PREFETCHSTATUSCHANGE st2), 0)] else [])
           @ (if sint (mCacheFillNotifThreshold s')
                   < \<bar>sint (mCacheFill s2) - sint (mLastNotifiedCacheFill s')\<bar>
              then [(kWhatNotif (EVENT_PREFETCHFILLLEVELUPDATE (scast (mCacheFill s2))), 0)]
              else [])"
  proof (intro impI, elim conjE)
    assume g: "getCacheRemaining th a s = Inr (st, s')"
      "getCacheRemaining th a' s' = Inr (st2, s2)"
    from getCacheRemaining_one [OF g(1)] have a: "mCacheStatus s' = st" by simp
    from getCacheRemaining_one [OF g(2)] have b: "mCacheStatus s2 = st2" by simp
    from getCacheRemaining_one [OF g(2)]
    show "mRenderLooper s2 = mRenderLooper s'
           @ (if st2 \<noteq> st
              then [(kWhatNotif (EVENT_PREFETCHSTATUSCHANGE st2), 0)] else [])
           @ (if sint (mCacheFillNotifThreshold s')
                   < \<bar>sint (mCacheFill s2) - sint (mLastNotifiedCacheFill s')\<bar>
              then [(kWhatNotif (EVENT_PREFETCHFILLLEVELUPDATE (scast (mCacheFill s2))), 0)]
              else [])"
      unfolding a b by (rule conjunct2 [THEN conjunct2, THEN conjunct1])
  qed
  have p3: "getCacheRemaining th a s = Inr (st, s') \<and> getCacheRemaining th a s' = Inr (st2, s2)
      \<longrightarrow> st2 = st \<and> mCacheFill s2 = mCacheFill s'
        \<and> mRenderLooper s2 = mRenderLooper s'
           @ (if sint (mCacheFillNotifThreshold s')
                   < \<bar>sint (mCacheFill s2) - sint (mLastNotifiedCacheFill s')\<bar>
              then [(kWhatNotif (EVENT_PREFETCHFILLLEVELUPDATE (scast (mCacheFill s2))), 0)]
              else [])
        \<and> (0 \<le> sint (mCacheFillNotifThreshold s) \<longrightarrow> s2 = s')"
  proof (intro impI, elim conjE)
    assume g: "getCacheRemaining th a s = Inr (st, s')"
      "getCacheRemaining th a s' = Inr (st2, s2)"
    note tw = getCacheRemaining_twice [OF g]
    from getCacheRemaining_one [OF g(2)] tw
    have q: "mRenderLooper s2 = mRenderLooper s'
           @ (if sint (mCacheFillNotifThreshold s')
                   < \<bar>sint (mCacheFill s2) - sint (mLastNotifiedCacheFill s')\<bar>
              then [(kWhatNotif (EVENT_PREFETCHFILLLEVELUPDATE (scast (mCacheFill s2))), 0)]
              else [])"
      by simp
    have r: "0 \<le> sint (mCacheFillNotifThreshold s) \<longrightarrow> s2 = s'"
      using getCacheRemaining_repeat [OF g] by blast
    from tw q r show "st2 = st \<and> mCacheFill s2 = mCacheFill s'
        \<and> mRenderLooper s2 = mRenderLooper s'
           @ (if sint (mCacheFillNotifThreshold s')
                   < \<bar>sint (mCacheFill s2) - sint (mLastNotifiedCacheFill s')\<bar>
              then [(kWhatNotif (EVENT_PREFETCHFILLLEVELUPDATE (scast (mCacheFill s2))), 0)]
              else [])
        \<and> (0 \<le> sint (mCacheFillNotifThreshold s) \<longrightarrow> s2 = s')"
      by (simp only: simp_thms)
  qed
  have p4: "mDataSource s \<noteq> None \<and> 0 <s mBitrate s \<longrightarrow>
        (\<exists>st s'. getCacheRemaining th a s = Inr (st, s'))"
    using getCacheRemaining_returns [of s th a] by blast
  from p1 p2 p3 p4 show ?thesis by (intro conjI)
qed

theorem cache_notifications_witness:
  "getCacheRemaining sample_thresholds (0, True) idle_player = Inr (kStatusHigh, after_eos)
   \<and> mCacheStatus idle_player = kStatusEmpty \<and> mLastNotifiedCacheFill idle_player = 0
   \<and> mCacheFillNotifThreshold idle_player = 100 \<and> mRenderLooper idle_player = []
   \<and> mCacheFill after_eos = 1000 \<and> mLastNotifiedCacheFill after_eos = 1000
   \<and> mRenderLooper after_eos = [(kWhatNotif (EVENT_PREFETCHSTATUSCHANGE kStatusHigh), 0),
                                 (kWhatNotif (EVENT_PREFETCHFILLLEVELUPDATE 1000), 0)]
   \<and> getCacheRemaining sample_thresholds (0, True) after_eos = Inr (kStatusHigh, after_eos)"
proof -
  have e: "getCacheRemaining sample_thresholds (0, True) idle_player = Inr (kStatusHigh, after_eos)"
    by (simp add: idle_player_eos after_eos_def)
  have i: "mCacheStatus idle_player = kStatusEmpty \<and> mLastNotifiedCacheFill idle_player = 0
      \<and> mCacheFillNotifThreshold idle_player = 100 \<and> mRenderLooper idle_player = []
      \<and> mDataSource idle_player \<noteq> None \<and> 0 <s mBitrate idle_player"
    by (simp add: idle_player_def SfPlayer_new_def word_sless_alt)
  have k: "mDataSource after_eos \<noteq> None \<and> 0 <s mBitrate after_eos"
    by (simp add: after_eos_def idle_player_def SfPlayer_new_def word_sless_alt)
  note T = cache_notifications [of sample_thresholds "(0, True)" idle_player kStatusHigh
      after_eos]
  from T e i have q: "mRenderLooper after_eos
      = [(kWhatNotif (EVENT_PREFETCHSTATUSCHANGE kStatusHigh), 0),
         (kWhatNotif (EVENT_PREFETCHFILLLEVELUPDATE 1000), 0)]
      \<and> mCacheFill after_eos = 1000 \<and> mLastNotifiedCacheFill after_eos = 1000"
    by (simp add: after_eos_def)
  from cache_notifications [of sample_thresholds "(0, True)" after_eos] k
  obtain st2 s2 where g2: "getCacheRemaining sample_thresholds (0, True) after_eos = Inr (st2, s2)"
    by blast
  from cache_notifications [of sample_thresholds "(0, True)" idle_player kStatusHigh
      after_eos "(0, True)" st2 s2] e g2 i
  have "st2 = kStatusHigh \<and> s2 = after_eos" by simp
  with g2 have r: "getCacheRemaining sample_thresholds (0, True) after_eos
      = Inr (kStatusHigh, after_eos)" by simp
  from e i q r show ?thesis by simp
qed


subsection \<open>The range of the fill level\<close>

text \<open>
  C4. The fill level of the known-duration branch is not kept within 0 to 1000. On the
  spec's scenario A (duration 30 s, bitrate 128000 bit/s, 2000000 bytes remaining,
  position 0) the estimator leaves \<open>mCacheFill = 4166\<close>; after \<open>seek(60000)\<close> on
  the same 30 s stream, with nothing cached, it leaves 2000.
\<close>

theorem fill_level_scenario_A:
  "map_sum id fst (getCacheRemaining sample_thresholds (2000000, False) idle_player)
     = Inr kStatusHigh
   \<and> map_sum id (mCacheFill \<circ> snd)
        (getCacheRemaining sample_thresholds (2000000, False) idle_player) = Inr 4166
   \<and> map_sum id (mCacheFill \<circ> snd)
        (getCacheRemaining sample_thresholds (0, False) (onSeek 60000 idle_player)) = Inr 2000
   \<and> sint (4166 :: int16) = 4166 \<and> sint (2000 :: int16) = 2000"
  by (simp add: getCacheRemaining_def idle_player_def SfPlayer_new_def onSeek_def
        word_sless_alt div64_def
        fill_level_values getPositionUsec_def flag_set_def flag_defs status_by_duration_def
        sample_thresholds_def notify_changes_def notifyStatus_def notifyCacheFill_def
        post_def Let_def)

subsection \<open>The estimator with an unknown duration\<close>

lemma http_prefix: "strncasecmp_eq ''http://host/a.mp3'' ''http://'' 7"
  by (simp add: strncasecmp_eq_def tolower_def)

lemma audio_prefix:
  "strncasecmp_eq ''audio/'' ''audio/mpeg'' 6" "\<not> strcasecmp_eq ''audio/raw'' ''audio/mpeg''"
  by (simp_all add: strncasecmp_eq_def strcasecmp_eq_def tolower_def)

text \<open>
  C5. When prepare finds no duration, it sets \<open>mBitrate\<close> and \<open>mDurationUsec\<close> to
  \<open>-1\<close>. The estimator then stops at \<open>CHECK_GE(mBitrate, 0)\<close>, before the branch
  for an unknown duration is reached, and so does the cache check that calls it.
\<close>

theorem unknown_duration_check_fails:
  "onPrepare unknown_duration_world http_player = Inr (SFPLAYER_SUCCESS, prepared_unknown)
   \<and> mBitrate prepared_unknown = - 1 \<and> mDurationUsec prepared_unknown = - 1
   \<and> getCacheRemaining sample_thresholds (500000, False) prepared_unknown = Inl CheckFailed
   \<and> onCheckCache sample_thresholds (sample_world\<lparr> approxDataRemaining := (500000, False) \<rparr>)
        prepared_unknown = Inl CheckFailed"
proof -
  have a: "mDataLocatorType http_player = kDataLocatorUri
      \<and> mDataLocator http_player = uri (Some ''http://host/a.mp3'')"
    by (simp add: http_player_def setDataSource_def Let_def)
  have "open_data_source unknown_duration_world http_player
      = Inr (Inr (Some \<lparr> kWantsPrefetching = True \<rparr>))"
    using a http_prefix
    by (simp add: open_data_source_def unknown_duration_world_def sample_prepare_world_def)
  then have p: "onPrepare unknown_duration_world http_player
      = Inr (SFPLAYER_SUCCESS, prepared_unknown)"
    using audio_prefix
    by (simp add: onPrepare_def start_source_def unknown_duration_world_def
          sample_prepare_world_def prepared_unknown_def)
  have b: "mBitrate prepared_unknown = - 1 \<and> mDurationUsec prepared_unknown = - 1
      \<and> mDataSource prepared_unknown = Some \<lparr> kWantsPrefetching = True \<rparr>"
    by (simp add: prepared_unknown_def)
  then have g: "getCacheRemaining sample_thresholds (500000, False) prepared_unknown
      = Inl CheckFailed"
    by (simp add: getCacheRemaining_def word_sless_alt)
  then have "onCheckCache sample_thresholds
      (sample_world\<lparr> approxDataRemaining := (500000, False) \<rparr>) prepared_unknown = Inl CheckFailed"
    by (simp add: onCheckCache_def)
  with p b g show ?thesis by simp
qed


subsection \<open>The fill level once end-of-stream is observed\<close>

lemma getCacheRemaining_eos:
  "getCacheRemaining th a s = Inr (st, s') \<Longrightarrow> snd a \<Longrightarrow>
     mCacheFill s' = 1000 \<and> mCacheStatus s' = kStatusHigh \<and> st = kStatusHigh"
  by (auto simp: getCacheRemaining_def notify_changes_def notifyStatus_def notifyCacheFill_def
        post_def Let_def split: option.splits if_splits sum.splits)

lemma getCacheRemaining_eos_returns:
  "mDataSource s \<noteq> None \<Longrightarrow> 0 <s mBitrate s \<Longrightarrow> snd a \<Longrightarrow>
     \<exists>s'. getCacheRemaining th a s = Inr (kStatusHigh, s')"
  by (auto simp: getCacheRemaining_def notify_changes_def notifyStatus_def notifyCacheFill_def
        post_def Let_def word_sless_alt split: option.splits)

lemma cache_checks_length: "cache_checks th s ins = Inr ss \<Longrightarrow> length ss = length ins"
  by (induction ins arbitrary: s ss) (auto split: sum.splits)

lemma cache_checks_eos:
  "cache_checks th s ins = Inr ss \<Longrightarrow> i < length ins \<Longrightarrow> snd (ins ! i) \<Longrightarrow>
     mCacheFill (ss ! i) = 1000 \<and> mCacheStatus (ss ! i) = kStatusHigh"
proof (induction ins arbitrary: s ss i)
  case Nil
  then show ?case by simp
next
  case (Cons a ins)
  from Cons.prems(1) obtain st s1 ss1 where
    g: "getCacheRemaining th a s = Inr (st, s1)" and r: "cache_checks th s1 ins = Inr ss1"
    and ss: "ss = s1 # ss1"
    by (auto split: sum.splits)
  show ?case
  proof (cases i)
    case 0
    with Cons.prems(3) have "snd a" by simp
    from getCacheRemaining_eos [OF g this] 0 ss show ?thesis by simp
  next
    case (Suc j)
    with Cons.prems(2,3) have "j < length ins" "snd (ins ! j)" by simp_all
    from Cons.IH [OF r this] Suc ss show ?thesis by simp
  qed
qed

lemma cache_checks_all_eos:
  "mDataSource s \<noteq> None \<Longrightarrow> 0 <s mBitrate s \<Longrightarrow> \<forall>a\<in>set ins. snd a \<Longrightarrow>
     \<exists>ss. cache_checks th s ins = Inr ss \<and> length ss = length ins
        \<and> (\<forall>t\<in>set ss. mCacheFill t = 1000 \<and> mCacheStatus t = kStatusHigh)"
proof (induction ins arbitrary: s)
  case Nil
  then show ?case by simp
next
  case (Cons a ins)
  from Cons.prems have e: "snd a" by simp
  from getCacheRemaining_eos_returns [OF Cons.prems(1,2) e] obtain s1 where
    g: "getCacheRemaining th a s = Inr (kStatusHigh, s1)" by blast
  note k = getCacheRemaining_keeps [OF g]
  from k Cons.prems have "mDataSource s1 \<noteq> None" "0 <s mBitrate s1" "\<forall>a\<in>set ins. snd a"
    by simp_all
  from Cons.IH [OF this] obtain ss1 where
    r: "cache_checks th s1 ins = Inr ss1" "length ss1 = length ins"
       "\<forall>t\<in>set ss1. mCacheFill t = 1000 \<and> mCacheStatus t = kStatusHigh"
    by blast
  from getCacheRemaining_eos [OF g e] g r show ?case by simp
qed

lemma cache_checks_returns:
  "mDataSource s \<noteq> None \<Longrightarrow> 0 <s mBitrate s \<Longrightarrow>
     \<exists>ss. cache_checks th s ins = Inr ss"
proof (induction ins arbitrary: s)
  case Nil
  then show ?case by simp
next
  case (Cons a ins)
  from getCacheRemaining_returns [OF Cons.prems] obtain st s1 where
    g: "getCacheRemaining th a s = Inr (st, s1)" by blast
  note k = getCacheRemaining_keeps [OF g]
  from k Cons.prems have "mDataSource s1 \<noteq> None" "0 <s mBitrate s1" by simp_all
  from Cons.IH [OF this] obtain ss1 where "cache_checks th s1 ins = Inr ss1" by blast
  with g show ?case by simp
qed

text \<open>
  C2, as amended. For every sequence of invocations of the cache estimator on a player
  with a data source and a positive bitrate: the sequence returns, and at every
  invocation that observes end-of-stream \<open>mCacheFill\<close> is exactly 1000 and
  \<open>mCacheStatus\<close> is High. So once an invocation has observed end-of-stream, the fill
  is 1000 at it and at every later invocation that observes end-of-stream too, and does
  not decrease from one of these to the next.
\<close>

theorem fill_after_eos:
  "(cache_checks th s ins = Inr ss \<and> i < length ins \<and> snd (ins ! i) \<longrightarrow>
      mCacheFill (ss ! i) = 1000 \<and> mCacheStatus (ss ! i) = kStatusHigh)
   \<and> (cache_checks th s ins = Inr ss \<and> i \<le> j \<and> j < length ins \<and> snd (ins ! i)
        \<and> snd (ins ! j) \<longrightarrow>
      sint (mCacheFill (ss ! i)) \<le> sint (mCacheFill (ss ! j)))
   \<and> (mDataSource s \<noteq> None \<and> 0 <s mBitrate s \<longrightarrow>
        (\<exists>ss. cache_checks th s ins = Inr ss \<and> length ss = length ins
           \<and> (\<forall>k. k < length ins \<and> snd (ins ! k) \<longrightarrow>
                 mCacheFill (ss ! k) = 1000 \<and> mCacheStatus (ss ! k) = kStatusHigh)))
   \<and> (mDataSource s \<noteq> None \<and> 0 <s mBitrate s \<and> (\<forall>a\<in>set ins. snd a) \<longrightarrow>
        (\<exists>ss. cache_checks th s ins = Inr ss \<and> length ss = length ins
           \<and> (\<forall>t\<in>set ss. mCacheFill t = 1000 \<and> mCacheStatus t = kStatusHigh)))"
proof -
  have p1: "cache_checks th s ins = Inr ss \<and> i < length ins \<and> snd (ins ! i) \<longrightarrow>
      mCacheFill (ss ! i) = 1000 \<and> mCacheStatus (ss ! i) = kStatusHigh"
    using cache_checks_eos [of th s ins ss i] by blast
  have p2: "cache_checks th s ins = Inr ss \<and> i \<le> j \<and> j < length ins \<and> snd (ins ! i)
        \<and> snd (ins ! j) \<longrightarrow>
      sint (mCacheFill (ss ! i)) \<le> sint (mCacheFill (ss ! j))"
  proof (intro impI, elim conjE)
    assume a: "cache_checks th s ins = Inr ss" "i \<le> j" "j < length ins"
      "snd (ins ! i)" "snd (ins ! j)"
    from a(2,3) have "i < length ins" by simp
    from cache_checks_eos [OF a(1) this a(4)] cache_checks_eos [OF a(1,3,5)]
    show "sint (mCacheFill (ss ! i)) \<le> sint (mCacheFill (ss ! j))" by simp
  qed
  have p3: "mDataSource s \<noteq> None \<and> 0 <s mBitrate s \<longrightarrow>
        (\<exists>ss. cache_checks th s ins = Inr ss \<and> length ss = length ins
           \<and> (\<forall>k. k < length ins \<and> snd (ins ! k) \<longrightarrow>
                 mCacheFill (ss ! k) = 1000 \<and> mCacheStatus (ss ! k) = kStatusHigh))"
  proof (intro impI, elim conjE)
    assume h: "mDataSource s \<noteq> None" "0 <s mBitrate s"
    from cache_checks_returns [OF h] obtain ss' where r: "cache_checks th s ins = Inr ss'"
      by blast
    have "\<forall>k. k < length ins \<and> snd (ins ! k) \<longrightarrow>
                 mCacheFill (ss' ! k) = 1000 \<and> mCacheStatus (ss' ! k) = kStatusHigh"
      using cache_checks_eos [OF r] by blast
    with r cache_checks_length [OF r]
    show "\<exists>ss. cache_checks th s ins = Inr ss \<and> length ss = length ins
           \<and> (\<forall>k. k < length ins \<and> snd (ins ! k) \<longrightarrow>
                 mCacheFill (ss ! k) = 1000 \<and> mCacheStatus (ss ! k) = kStatusHigh)"
      by blast
  qed
  have p4: "mDataSource s \<noteq> None \<and> 0 <s mBitrate s \<and> (\<forall>a\<in>set ins. snd a) \<longrightarrow>
        (\<exists>ss. cache_checks th s ins = Inr ss \<and> length ss = length ins
           \<and> (\<forall>t\<in>set ss. mCacheFill t = 1000 \<and> mCacheStatus t = kStatusHigh))"
    using cache_checks_all_eos [of s ins th] by blast
  from p1 p2 p3 p4 show ?thesis by (intro conjI)
qed

theorem fill_after_eos_witness:
  "mDataSource idle_player \<noteq> None \<and> 0 <s mBitrate idle_player
   \<and> (\<exists>ss. cache_checks sample_thresholds idle_player [(0, True), (0, False), (500, True)]
              = Inr ss
         \<and> length ss = 3
         \<and> mCacheFill (ss ! 0) = 1000 \<and> mCacheStatus (ss ! 0) = kStatusHigh
         \<and> mCacheFill (ss ! 2) = 1000 \<and> mCacheStatus (ss ! 2) = kStatusHigh
         \<and> sint (mCacheFill (ss ! 0)) \<le> sint (mCacheFill (ss ! 2)))"
proof -
  let ?ins = "[(0, True), (0, False), (500::uint32, True)]"
  have h: "mDataSource idle_player \<noteq> None \<and> 0 <s mBitrate idle_player"
    by (simp add: idle_player_def SfPlayer_new_def word_sless_alt)
  from fill_after_eos [of sample_thresholds idle_player ?ins] h
  obtain ss where
    r: "cache_checks sample_thresholds idle_player ?ins = Inr ss" "length ss = length ?ins"
    and e: "\<forall>k. k < length ?ins \<and> snd (?ins ! k) \<longrightarrow>
                 mCacheFill (ss ! k) = 1000 \<and> mCacheStatus (ss ! k) = kStatusHigh"
    by blast
  from e have f0: "mCacheFill (ss ! 0) = 1000 \<and> mCacheStatus (ss ! 0) = kStatusHigh"
    by (simp del: cache_checks.simps)
  have "(2::nat) < length ?ins \<and> snd (?ins ! 2)" by simp
  with e have f2: "mCacheFill (ss ! 2) = 1000 \<and> mCacheStatus (ss ! 2) = kStatusHigh"
    by blast
  from f0 f2 have m: "sint (mCacheFill (ss ! 0)) \<le> sint (mCacheFill (ss ! 2))" by simp
  from r(2) have l: "length ss = 3" by simp
  from r(1) l f0 f2 m have "cache_checks sample_thresholds idle_player ?ins = Inr ss
         \<and> length ss = 3
         \<and> mCacheFill (ss ! 0) = 1000 \<and> mCacheStatus (ss ! 0) = kStatusHigh
         \<and> mCacheFill (ss ! 2) = 1000 \<and> mCacheStatus (ss ! 2) = kStatusHigh
         \<and> sint (mCacheFill (ss ! 0)) \<le> sint (mCacheFill (ss ! 2))"
    by (simp only: simp_thms)
  then have "\<exists>ss. cache_checks sample_thresholds idle_player ?ins = Inr ss
         \<and> length ss = 3
         \<and> mCacheFill (ss ! 0) = 1000 \<and> mCacheStatus (ss ! 0) = kStatusHigh
         \<and> mCacheFill (ss ! 2) = 1000 \<and> mCacheStatus (ss ! 2) = kStatusHigh
         \<and> sint (mCacheFill (ss ! 0)) \<le> sint (mCacheFill (ss ! 2))"
    by (rule exI)
  with h show ?thesis by (simp only: simp_thms)
qed

lemma idle_player_after_eos:
  "getCacheRemaining sample_thresholds (0, False)
     (idle_player\<lparr> mCacheStatus := kStatusHigh, mCacheFill := 1000,
              mLastNotifiedCacheFill := 1000,
              mRenderLooper := [(kWhatNotif (EVENT_PREFETCHSTATUSCHANGE kStatusHigh), 0),
                                (kWhatNotif (EVENT_PREFETCHFILLLEVELUPDATE 1000), 0)] \<rparr>)
     = Inr (kStatusLow, idle_player\<lparr> mCacheStatus := kStatusLow, mCacheFill := 0,
              mLastNotifiedCacheFill := 0,
              mRenderLooper := [(kWhatNotif (EVENT_PREFETCHSTATUSCHANGE kStatusHigh), 0),
                                (kWhatNotif (EVENT_PREFETCHFILLLEVELUPDATE 1000), 0),
                                (kWhatNotif (EVENT_PREFETCHSTATUSCHANGE kStatusLow), 0),
                                (kWhatNotif (EVENT_PREFETCHFILLLEVELUPDATE 0), 0)] \<rparr>)"
  by (simp add: getCacheRemaining_def idle_player_def SfPlayer_new_def word_sless_alt div64_def
        fill_level_values getPositionUsec_def flag_set_def flag_defs status_by_duration_def
        sample_thresholds_def notify_changes_def notifyStatus_def notifyCacheFill_def
        post_def Let_def)

text \<open>The claim as stated fails when a later invocation does not observe end-of-stream
  (the estimator keeps no record of it): the fill is computed anew, here 0, and the
  status is Low.\<close>

theorem fill_after_eos_counterexample:
  "map_sum id (map mCacheFill)
     (cache_checks sample_thresholds idle_player [(0, True), (0, False)]) = Inr [1000, 0]
   \<and> map_sum id (map mCacheStatus)
     (cache_checks sample_thresholds idle_player [(0, True), (0, False)])
       = Inr [kStatusHigh, kStatusLow]"
  by (simp add: idle_player_eos idle_player_after_eos)

end
